theory Spec2Isabelle
  imports
    Complex_Main
    "HOL-Library.Multiset"
    "HOL-Library.Sublist"
    "HOL-Library.Char_ord"
    "HOL-Library.List_Lexorder"
    "HOL-Library.Product_Lexorder"
begin

section \<open>Errors\<close>

text \<open>
  The error taxonomy of the application. The library functions themselves only re-throw
  what the backend client throws; \<open>ValidationError\<close> is listed because the specification
  names it, no function modelled below ever produces it.
\<close>

datatype error = ValidationError | NotFoundError | BackendError

section \<open>Storage service (media lifecycle)\<close>

subsection \<open>Data\<close>

text \<open>The browser's \<open>File\<close>: name, MIME type and size in bytes.\<close>

record File =
  file_name :: string
  file_type :: string
  file_size :: nat

datatype media_type = Image | Video

record MediaItem =
  media_id :: string
  media_url :: string
  media_type :: media_type
  media_filename :: string
  media_size :: nat
  media_createdAt :: int

record validation =
  valid :: bool
  error :: "string option"

subsection \<open>validateFile\<close>

definition MAX_SIZE :: nat where
  "MAX_SIZE = 500 * 1024 * 1024"

definition ALLOWED_IMAGE_TYPES :: "string list" where
  "ALLOWED_IMAGE_TYPES =
     [''image/jpeg'', ''image/jpg'', ''image/png'', ''image/webp'', ''image/gif'']"

definition ALLOWED_VIDEO_TYPES :: "string list" where
  "ALLOWED_VIDEO_TYPES =
     [''video/mp4'', ''video/mkv'', ''video/webm'', ''video/mov'', ''video/avi'']"

definition ALLOWED_TYPES :: "string list" where
  "ALLOWED_TYPES = ALLOWED_IMAGE_TYPES @ ALLOWED_VIDEO_TYPES"

definition validateFile :: "File \<Rightarrow> validation" where
  "validateFile f =
     (if file_size f > MAX_SIZE then
        \<lparr>valid = False, error = Some ''File size exceeds 500MB limit''\<rparr>
      else if file_type f \<notin> set ALLOWED_TYPES then
        \<lparr>valid = False,
         error = Some ''File type not supported. Please upload images (JPEG, PNG, WebP, GIF) or videos (MP4, MKV, WebM, MOV, AVI)''\<rparr>
      else \<lparr>valid = True, error = None\<rparr>)"

subsection \<open>String helpers\<close>

text \<open>\<open>s.startsWith(p)\<close> of JavaScript.\<close>

fun startsWith :: "string \<Rightarrow> string \<Rightarrow> bool" where
  "startsWith s [] = True"
| "startsWith [] (c # p) = False"
| "startsWith (x # s) (c # p) = (x = c \<and> startsWith s p)"

text \<open>The decimal rendering of a non-negative integer, as a template literal prints it.\<close>

definition digit_char :: "nat \<Rightarrow> char" where
  "digit_char d = ''0123456789'' ! d"

fun showNat :: "nat \<Rightarrow> string" where
  "showNat n = (if n < 10 then [digit_char n] else showNat (n div 10) @ [digit_char (n mod 10)])"

declare showNat.simps [simp del]

subsection \<open>The blob store (external collaborator)\<close>

text \<open>
  The bucket is an association list from full object paths to objects; the creation time
  of an object is kept in milliseconds since the epoch (the value that
  \<open>new Date(metadata.timeCreated).getTime()\<close> reads). The record \<open>backend\<close> collects what
  the client library decides: which calls fail, what download URL an object gets, and the
  server's clock at upload.
\<close>

record blob =
  blob_contentType :: string
  blob_size :: nat
  blob_timeCreated :: int

type_synonym storage = "(string \<times> blob) list"

record backend =
  uploadFails :: "string \<Rightarrow> bool"
  urlFails :: "string \<Rightarrow> bool"
  metadataFails :: "string \<Rightarrow> bool"
  deleteFails :: "string \<Rightarrow> bool"
  listFails :: "string \<Rightarrow> bool"
  downloadURL :: "string \<Rightarrow> string"
  serverTime :: int

definition removeObject :: "string \<Rightarrow> storage \<Rightarrow> storage" where
  "removeObject path st = filter (\<lambda>(q, b). q \<noteq> path) st"

definition uploadBytes :: "backend \<Rightarrow> string \<Rightarrow> File \<Rightarrow> storage \<Rightarrow> (error + unit) \<times> storage" where
  "uploadBytes be path f st =
     (if uploadFails be path then (Inl BackendError, st)
      else (Inr (),
            (path, \<lparr>blob_contentType = file_type f, blob_size = file_size f,
                    blob_timeCreated = serverTime be\<rparr>) # removeObject path st))"

definition getDownloadURL :: "backend \<Rightarrow> string \<Rightarrow> storage \<Rightarrow> error + string" where
  "getDownloadURL be path st =
     (if urlFails be path then Inl BackendError
      else case map_of st path of
             None \<Rightarrow> Inl NotFoundError
           | Some b \<Rightarrow> Inr (downloadURL be path))"

definition deleteObject :: "backend \<Rightarrow> string \<Rightarrow> storage \<Rightarrow> (error + unit) \<times> storage" where
  "deleteObject be path st =
     (if deleteFails be path then (Inl BackendError, st)
      else case map_of st path of
             None \<Rightarrow> (Inl NotFoundError, st)
           | Some b \<Rightarrow> (Inr (), removeObject path st))"

definition getMetadata :: "backend \<Rightarrow> string \<Rightarrow> storage \<Rightarrow> error + blob" where
  "getMetadata be path st =
     (if metadataFails be path then Inl BackendError
      else case map_of st path of
             None \<Rightarrow> Inl NotFoundError
           | Some b \<Rightarrow> Inr b)"

text \<open>
  \<open>listAll(ref).items\<close>: the objects directly under the directory, that is the paths
  \<open>dir/name\<close> with a non-empty \<open>name\<close> that has no further slash.
\<close>

definition directlyUnder :: "string \<Rightarrow> string \<Rightarrow> bool" where
  "directlyUnder dir path =
     (startsWith path (dir @ ''/'') \<and>
      (let name = drop (length dir + 1) path in name \<noteq> [] \<and> CHR ''/'' \<notin> set name))"

definition listAll :: "backend \<Rightarrow> string \<Rightarrow> storage \<Rightarrow> error + string list" where
  "listAll be dir st =
     (if listFails be dir then Inl BackendError
      else Inr (map fst (filter (\<lambda>(q, b). directlyUnder dir q) st)))"

subsection \<open>uploadFile\<close>

text \<open>
  \<open>timestamp\<close> is the value of \<open>Date.now()\<close>, \<open>created\<close> that of \<open>new Date()\<close>. The optional
  \<open>postId\<close> is tested for truthiness, so the empty string counts as absent. The
  \<open>try\<close>/\<open>catch\<close> logs and re-throws: an error of a backend call is the error of the function.
\<close>

definition storagePath :: "nat \<Rightarrow> File \<Rightarrow> string \<Rightarrow> string option \<Rightarrow> string" where
  "storagePath timestamp f userId postId =
     (let fileName = showNat timestamp @ ''-'' @ file_name f
      in case postId of
           None \<Rightarrow> ''temp/'' @ userId @ ''/'' @ fileName
         | Some p \<Rightarrow>
             (if p \<noteq> [] then ''posts/'' @ p @ ''/'' @ fileName
              else ''temp/'' @ userId @ ''/'' @ fileName))"

definition uploadFile ::
  "backend \<Rightarrow> nat \<Rightarrow> int \<Rightarrow> File \<Rightarrow> string \<Rightarrow> string option \<Rightarrow> storage
     \<Rightarrow> (error + MediaItem) \<times> storage" where
  "uploadFile be timestamp created f userId postId st =
     (let fileName = showNat timestamp @ ''-'' @ file_name f;
          path = storagePath timestamp f userId postId
      in case uploadBytes be path f st of
           (Inl e, st') \<Rightarrow> (Inl e, st')
         | (Inr u, st') \<Rightarrow>
             (case getDownloadURL be path st' of
                Inl e \<Rightarrow> (Inl e, st')
              | Inr url \<Rightarrow>
                  (let fileType = (if startsWith (file_type f) ''image/'' then Image else Video)
                   in (Inr \<lparr>media_id = fileName, media_url = url, media_type = fileType,
                             media_filename = file_name f, media_size = file_size f,
                             media_createdAt = created\<rparr>, st'))))"

subsection \<open>deleteFile, getFileMetadata, listFiles\<close>

definition deleteFile :: "backend \<Rightarrow> string \<Rightarrow> storage \<Rightarrow> (error + unit) \<times> storage" where
  "deleteFile be filePath st = deleteObject be filePath st"

definition getFileMetadata :: "backend \<Rightarrow> string \<Rightarrow> storage \<Rightarrow> error + blob" where
  "getFileMetadata be filePath st = getMetadata be filePath st"

definition listFiles :: "backend \<Rightarrow> string \<Rightarrow> storage \<Rightarrow> error + string list" where
  "listFiles be directoryPath st = listAll be directoryPath st"

subsection \<open>cleanupTempFiles\<close>

definition oneDayMs :: int where
  "oneDayMs = 24 * 60 * 60 * 1000"

text \<open>
  The body of the \<open>for\<close> loop. Its inner \<open>try\<close>/\<open>catch\<close> covers both the metadata fetch and
  the delete: whichever fails, the loop goes on with the next path.
\<close>

definition cleanupStep :: "backend \<Rightarrow> int \<Rightarrow> string \<Rightarrow> storage \<Rightarrow> storage" where
  "cleanupStep be now filePath st =
     (case getFileMetadata be filePath st of
        Inl e \<Rightarrow> st
      | Inr metadata \<Rightarrow>
          (let fileTime = blob_timeCreated metadata
           in if now - fileTime > oneDayMs then snd (deleteFile be filePath st) else st))"

fun cleanupLoop :: "backend \<Rightarrow> int \<Rightarrow> string list \<Rightarrow> storage \<Rightarrow> storage" where
  "cleanupLoop be now [] st = st"
| "cleanupLoop be now (filePath # files) st = cleanupLoop be now files (cleanupStep be now filePath st)"

text \<open>
  \<open>now\<close> is the single reading of \<open>Date.now()\<close> taken before the loop. The outer
  \<open>catch\<close> logs and does not re-throw, so the promise always resolves.
\<close>

definition cleanupTempFiles :: "backend \<Rightarrow> int \<Rightarrow> string \<Rightarrow> storage \<Rightarrow> (error + unit) \<times> storage" where
  "cleanupTempFiles be now userId st =
     (let tempPath = ''temp/'' @ userId
      in case listFiles be tempPath st of
           Inl e \<Rightarrow> (Inr (), st)
         | Inr files \<Rightarrow> (Inr (), cleanupLoop be now files st))"

section \<open>Database service (posts)\<close>

subsection \<open>Data\<close>

text \<open>
  A post document with the fields that the functions below read or write; the author
  fields, \<open>updatedAt\<close> and \<open>media\<close> play no part in them and are left out. Times are
  milliseconds since the epoch. \<open>avgRating\<close> is a JavaScript number; it is modelled by an
  exact rational.
\<close>

record BlogPost =
  post_id :: string
  title :: string
  content :: string
  excerpt :: string
  tags :: "string list"
  createdAt :: int
  viewCount :: nat
  avgRating :: rat
  totalRatings :: nat

datatype sortBy = SortNewest | SortOldest | SortRating | SortViews

subsection \<open>The document store's ordered queries (external collaborator)\<close>

text \<open>
  A query \<open>orderBy(field, direction)\<close> returns the documents ordered by the field and, among
  equal field values, by document id in the same direction. \<open>startAfter(doc)\<close> keeps the
  documents that come strictly after the position of \<open>doc\<close> in that order, and \<open>limit(n)\<close>
  keeps the first \<open>n\<close> of them. The posts collection is a list of documents.
\<close>

datatype field = CreatedAt | AvgRating | ViewCount

datatype direction = Asc | Desc

definition fieldValue :: "field \<Rightarrow> BlogPost \<Rightarrow> rat" where
  "fieldValue fld p =
     (case fld of
        CreatedAt \<Rightarrow> of_int (createdAt p)
      | AvgRating \<Rightarrow> avgRating p
      | ViewCount \<Rightarrow> of_nat (viewCount p))"

definition orderKey :: "field \<Rightarrow> BlogPost \<Rightarrow> rat \<times> string" where
  "orderKey fld p = (fieldValue fld p, post_id p)"

definition orderBy :: "field \<Rightarrow> direction \<Rightarrow> BlogPost list \<Rightarrow> BlogPost list" where
  "orderBy fld dir coll =
     (case dir of
        Asc \<Rightarrow> sort_key (orderKey fld) coll
      | Desc \<Rightarrow> rev (sort_key (orderKey fld) coll))"

definition comesAfter :: "field \<Rightarrow> direction \<Rightarrow> BlogPost \<Rightarrow> BlogPost \<Rightarrow> bool" where
  "comesAfter fld dir c p =
     (case dir of
        Asc \<Rightarrow> orderKey fld c < orderKey fld p
      | Desc \<Rightarrow> orderKey fld p < orderKey fld c)"

definition startAfter :: "field \<Rightarrow> direction \<Rightarrow> BlogPost option \<Rightarrow> BlogPost list \<Rightarrow> BlogPost list" where
  "startAfter fld dir cursor docs =
     (case cursor of
        None \<Rightarrow> docs
      | Some c \<Rightarrow> filter (comesAfter fld dir c) docs)"

definition getDocs ::
  "field \<Rightarrow> direction \<Rightarrow> nat \<Rightarrow> BlogPost option \<Rightarrow> BlogPost list \<Rightarrow> BlogPost list" where
  "getDocs fld dir n cursor coll = take n (startAfter fld dir cursor (orderBy fld dir coll))"

subsection \<open>getPosts\<close>

record getPostsOptions =
  opt_sortBy :: "sortBy option"
  opt_limit :: "nat option"
  opt_startAfter :: "BlogPost option"

record page =
  posts :: "BlogPost list"
  hasMore :: bool
  lastDoc :: "BlogPost option"

definition sortOrder :: "sortBy \<Rightarrow> field \<times> direction" where
  "sortOrder sb =
     (case sb of
        SortOldest \<Rightarrow> (CreatedAt, Asc)
      | SortRating \<Rightarrow> (AvgRating, Desc)
      | SortViews \<Rightarrow> (ViewCount, Desc)
      | SortNewest \<Rightarrow> (CreatedAt, Desc))"

text \<open>
  The options default to \<open>newest\<close> and 10; a page size is a natural number. The cursor is passed on only if it is truthy, which
  an absent one (\<open>null\<close>, \<open>undefined\<close>) is not. \<open>snapshot.docs[limitCount - 1]\<close> is \<open>undefined\<close>
  for \<open>limitCount = 0\<close>.
\<close>

definition getPosts :: "getPostsOptions \<Rightarrow> BlogPost list \<Rightarrow> page" where
  "getPosts options coll =
     (let sb = (case opt_sortBy options of None \<Rightarrow> SortNewest | Some s \<Rightarrow> s);
          limitCount = (case opt_limit options of None \<Rightarrow> 10 | Some n \<Rightarrow> n);
          docs = getDocs (fst (sortOrder sb)) (snd (sortOrder sb)) (limitCount + 1)
                   (opt_startAfter options) coll;
          more = (length docs > limitCount);
          ps = (if more then butlast docs else docs)
      in \<lparr>posts = ps, hasMore = more,
          lastDoc = (if more then (if limitCount = 0 then None else Some (docs ! (limitCount - 1)))
                     else None)\<rparr>)"

text \<open>
  Repeated calls that pass the returned cursor back, as the infinite-scroll hook makes them:
  the next page is requested with the returned \<open>lastDoc\<close> as long as the last page reported
  \<open>hasMore\<close>. The first argument bounds the number of requests.
\<close>

fun fetchPages :: "nat \<Rightarrow> sortBy \<Rightarrow> nat \<Rightarrow> BlogPost option \<Rightarrow> BlogPost list \<Rightarrow> page list" where
  "fetchPages 0 sb k cursor coll = []"
| "fetchPages (Suc fuel) sb k cursor coll =
     (let pg = getPosts \<lparr>opt_sortBy = Some sb, opt_limit = Some k, opt_startAfter = cursor\<rparr> coll
      in pg # (if hasMore pg then fetchPages fuel sb k (lastDoc pg) coll else []))"

subsection \<open>searchPosts\<close>

text \<open>
  Strings are lists of 8-bit characters here. This \<open>toLowerCase\<close> maps the 26 letters A to
  Z to lower case and leaves every other character as it is: it is the platform's function
  on strings of ASCII characters.
\<close>

definition toLowerChar :: "char \<Rightarrow> char" where
  "toLowerChar c =
     (case map_of (zip ''ABCDEFGHIJKLMNOPQRSTUVWXYZ'' ''abcdefghijklmnopqrstuvwxyz'') c of
        None \<Rightarrow> c
      | Some l \<Rightarrow> l)"

definition toLowerCase :: "string \<Rightarrow> string" where
  "toLowerCase s = map toLowerChar s"

text \<open>
  \<open>s.split(sep)\<close> for a separator of one character: the string is cut at every character
  that satisfies the predicate, and empty pieces are kept, so the result is never empty.
\<close>

fun splitAt :: "(char \<Rightarrow> bool) \<Rightarrow> string \<Rightarrow> string list" where
  "splitAt sep [] = [[]]"
| "splitAt sep (c # s) =
     (if sep c then [] # splitAt sep s
      else (case splitAt sep s of
              [] \<Rightarrow> [[c]]
            | t # ts \<Rightarrow> (c # t) # ts))"

fun join :: "string \<Rightarrow> string list \<Rightarrow> string" where
  "join sep [] = []"
| "join sep [x] = x"
| "join sep (x # y # ys) = x @ sep @ join sep (y # ys)"

text \<open>\<open>s.includes(t)\<close>: \<open>t\<close> occurs in \<open>s\<close> as a contiguous piece.\<close>

fun includes_str :: "string \<Rightarrow> string \<Rightarrow> bool" where
  "includes_str [] t = (t = [])"
| "includes_str (x # s) t = (startsWith (x # s) t \<or> includes_str s t)"

definition searchContent :: "BlogPost \<Rightarrow> string" where
  "searchContent post =
     toLowerCase (title post @ '' '' @ content post @ '' '' @ excerpt post @ '' '' @ join '' '' (tags post))"

definition searchPosts :: "string \<Rightarrow> BlogPost list \<Rightarrow> BlogPost list" where
  "searchPosts searchQuery coll =
     (let pg = getPosts \<lparr>opt_sortBy = None, opt_limit = Some 100, opt_startAfter = None\<rparr> coll;
          searchTerms = splitAt (\<lambda>c. c = CHR '' '') (toLowerCase searchQuery)
      in filter (\<lambda>post. list_ex (\<lambda>term. includes_str (searchContent post) term) searchTerms) (posts pg))"

text \<open>
  The same function with the platform's \<open>toLowerCase\<close> taken as a parameter, so that
  statements about it hold whatever that function does to letters outside A to Z.
  \<open>isAscii\<close> singles out the characters on which \<open>toLowerCase\<close> above and the platform's
  function agree.
\<close>

definition isAscii :: "char \<Rightarrow> bool" where
  "isAscii c = (of_char c < (128 :: nat))"

definition searchContentWith :: "(string \<Rightarrow> string) \<Rightarrow> BlogPost \<Rightarrow> string" where
  "searchContentWith lower post =
     lower (title post @ '' '' @ content post @ '' '' @ excerpt post @ '' '' @ join '' '' (tags post))"

definition searchPostsWith :: "(string \<Rightarrow> string) \<Rightarrow> string \<Rightarrow> BlogPost list \<Rightarrow> BlogPost list" where
  "searchPostsWith lower searchQuery coll =
     (let pg = getPosts \<lparr>opt_sortBy = None, opt_limit = Some 100, opt_startAfter = None\<rparr> coll;
          searchTerms = splitAt (\<lambda>c. c = CHR '' '') (lower searchQuery)
      in filter (\<lambda>post. list_ex (\<lambda>term. includes_str (searchContentWith lower post) term) searchTerms)
           (posts pg))"

section \<open>Comment and rating service (ratings)\<close>

subsection \<open>Data\<close>

text \<open>
  A rating document. Document ids of the ratings collection are modelled as natural numbers;
  \<open>rating\<close> is the number the caller passed, an integer here.
\<close>

record Rating =
  rating_id :: nat
  postId :: string
  authorId :: string
  rating :: int
  rating_createdAt :: int

text \<open>The two collections the rating functions touch, each a list of documents.\<close>

record firestore =
  postsCollection :: "BlogPost list"
  ratingsCollection :: "Rating list"

subsection \<open>The document store's reads and writes (external collaborator)\<close>

text \<open>
  \<open>updateDoc\<close> on a post fails when the document does not exist; this is the only failure
  of the document store that is modelled. \<open>deleteDoc\<close> never fails. A write batch is a list
  of writes that \<open>commit\<close> applies in order; \<open>doc(collection)\<close> picks an unused id.
\<close>

definition updatePostDoc :: "string \<Rightarrow> (BlogPost \<Rightarrow> BlogPost) \<Rightarrow> firestore \<Rightarrow> error option \<times> firestore" where
  "updatePostDoc pid upd db =
     (if list_ex (\<lambda>p. post_id p = pid) (postsCollection db)
      then (None, db\<lparr>postsCollection := map (\<lambda>p. if post_id p = pid then upd p else p) (postsCollection db)\<rparr>)
      else (Some NotFoundError, db))"

definition deleteRatingDoc :: "nat \<Rightarrow> firestore \<Rightarrow> firestore" where
  "deleteRatingDoc rid db =
     db\<lparr>ratingsCollection := filter (\<lambda>r. rating_id r \<noteq> rid) (ratingsCollection db)\<rparr>"

definition queryRatings :: "string \<Rightarrow> string \<Rightarrow> firestore \<Rightarrow> Rating list" where
  "queryRatings pid aid db =
     filter (\<lambda>r. postId r = pid \<and> authorId r = aid) (ratingsCollection db)"

definition newDocId :: "Rating list \<Rightarrow> nat" where
  "newDocId rs = Suc (foldr max (map rating_id rs) 0)"

datatype batch_write = BatchUpdate nat int int | BatchSet Rating

fun applyWrite :: "batch_write \<Rightarrow> Rating list \<Rightarrow> Rating list" where
  "applyWrite (BatchUpdate rid r t) rs =
     map (\<lambda>d. if rating_id d = rid then d\<lparr>rating := r, rating_createdAt := t\<rparr> else d) rs"
| "applyWrite (BatchSet d) rs = filter (\<lambda>x. rating_id x \<noteq> rating_id d) rs @ [d]"

definition commit :: "batch_write list \<Rightarrow> firestore \<Rightarrow> firestore" where
  "commit batch db = db\<lparr>ratingsCollection := fold applyWrite batch (ratingsCollection db)\<rparr>"

subsection \<open>getPostRatings, updatePostRating\<close>

text \<open>The ratings of a post, sorted newest first by the stable client-side sort.\<close>

definition getPostRatings :: "string \<Rightarrow> firestore \<Rightarrow> Rating list" where
  "getPostRatings pid db =
     sort_key (\<lambda>r. - rating_createdAt r) (filter (\<lambda>r. postId r = pid) (ratingsCollection db))"

text \<open>\<open>Math.round\<close>: the nearest integer, halves going up.\<close>

definition Math_round :: "rat \<Rightarrow> int" where
  "Math_round x = \<lfloor>x + 1 / 2\<rfloor>"

definition updatePostRating :: "string \<Rightarrow> firestore \<Rightarrow> error option \<times> firestore" where
  "updatePostRating pid db =
     (let ratings = getPostRatings pid db
      in if length ratings = 0 then
           updatePostDoc pid (\<lambda>p. p\<lparr>avgRating := 0, totalRatings := 0\<rparr>) db
         else
           (let totalRating = foldl (\<lambda>sum r. sum + rating r) 0 ratings;
                avg = of_int totalRating / of_nat (length ratings)
            in updatePostDoc pid
                 (\<lambda>p. p\<lparr>avgRating := of_int (Math_round (avg * 10)) / 10,
                         totalRatings := length ratings\<rparr>) db))"

subsection \<open>addOrUpdateRating\<close>

text \<open>
  \<open>now\<close> is the value of \<open>Timestamp.now()\<close>. The batch is filled first, then
  \<open>updatePostRating\<close> runs, and only then the batch is committed; if \<open>updatePostRating\<close>
  throws, the batch is never committed.
\<close>

definition addOrUpdateRating :: "int \<Rightarrow> string \<Rightarrow> int \<Rightarrow> string \<Rightarrow> firestore \<Rightarrow> error option \<times> firestore" where
  "addOrUpdateRating now pid r aid db =
     (let existingRatingSnapshot = queryRatings pid aid db;
          batch = (case existingRatingSnapshot of
                     ratingDoc # rest \<Rightarrow> [BatchUpdate (rating_id ratingDoc) r now]
                   | [] \<Rightarrow> [BatchSet \<lparr>rating_id = newDocId (ratingsCollection db), postId = pid,
                                       authorId = aid, rating = r, rating_createdAt = now\<rparr>])
      in case updatePostRating pid db of
           (Some e, db') \<Rightarrow> (Some e, db')
         | (None, db') \<Rightarrow> (None, commit batch db'))"

subsection \<open>deleteRating\<close>

definition deleteRating :: "string \<Rightarrow> string \<Rightarrow> firestore \<Rightarrow> error option \<times> firestore" where
  "deleteRating pid aid db =
     (case queryRatings pid aid db of
        [] \<Rightarrow> (None, db)
      | ratingDoc # rest \<Rightarrow> updatePostRating pid (deleteRatingDoc (rating_id ratingDoc) db))"

section \<open>Auxiliary notions for the properties\<close>

text \<open>
  An object is \<open>doomed\<close> in a bucket when one step of the sweep would delete it: its metadata
  can be fetched, it is older than one day at \<open>now\<close>, and its removal does not fail.
\<close>

definition doomed :: "backend \<Rightarrow> int \<Rightarrow> storage \<Rightarrow> string \<Rightarrow> bool" where
  "doomed be now st q = (\<not> metadataFails be q \<and> \<not> deleteFails be q \<and>
      (case map_of st q of None \<Rightarrow> False | Some b \<Rightarrow> now - blob_timeCreated b > oneDayMs))"

text \<open>A backend and a bucket for concrete runs.\<close>

definition example_backend :: backend where
  "example_backend =
     \<lparr>uploadFails = (\<lambda>p. False), urlFails = (\<lambda>p. False),
      metadataFails = (\<lambda>p. p = ''temp/u1/c.png''), deleteFails = (\<lambda>p. False),
      listFails = (\<lambda>p. False), downloadURL = (\<lambda>p. ''https://cdn.test/'' @ p),
      serverTime = 100000000\<rparr>"

definition example_bucket :: storage where
  "example_bucket =
     [(''temp/u1/a.png'', \<lparr>blob_contentType = ''image/png'', blob_size = 1, blob_timeCreated = 13599999\<rparr>),
      (''temp/u1/b.png'', \<lparr>blob_contentType = ''image/png'', blob_size = 2, blob_timeCreated = 13600000\<rparr>),
      (''temp/u1/c.png'', \<lparr>blob_contentType = ''image/png'', blob_size = 3, blob_timeCreated = 0\<rparr>),
      (''temp/u2/d.png'', \<lparr>blob_contentType = ''image/png'', blob_size = 4, blob_timeCreated = 0\<rparr>),
      (''temp/u1/e.png'', \<lparr>blob_contentType = ''image/png'', blob_size = 5, blob_timeCreated = 5\<rparr>)]"

text \<open>
  The search as the specification words it, for comparison with \<open>searchPosts\<close>: the query
  is split on whitespace, that is at every space, tab, line feed, vertical tab, form feed and
  carriage return.
\<close>

definition isWhitespace :: "char \<Rightarrow> bool" where
  "isWhitespace c = (c \<in> set [CHR 0x20, CHR 0x09, CHR 0x0A, CHR 0x0B, CHR 0x0C, CHR 0x0D])"

definition spec_searchPosts :: "string \<Rightarrow> BlogPost list \<Rightarrow> BlogPost list" where
  "spec_searchPosts searchQuery coll =
     (let pg = getPosts \<lparr>opt_sortBy = None, opt_limit = Some 100, opt_startAfter = None\<rparr> coll;
          tokens = splitAt isWhitespace (toLowerCase searchQuery)
      in filter (\<lambda>post. list_ex (\<lambda>t. includes_str (searchContent post) t) tokens) (posts pg))"

text \<open>Posts for concrete runs.\<close>

definition examplePost :: "string \<Rightarrow> string \<Rightarrow> int \<Rightarrow> BlogPost" where
  "examplePost i t c =
     \<lparr>post_id = i, title = t, content = [], excerpt = [], tags = [], createdAt = c,
      viewCount = 0, avgRating = 0, totalRatings = 0\<rparr>"

definition corpus5 :: "BlogPost list" where
  "corpus5 = [examplePost ''p1'' ''one'' 10, examplePost ''p2'' ''two'' 20,
     examplePost ''p3'' ''three'' 30, examplePost ''p4'' ''four'' 40, examplePost ''p5'' ''five'' 50]"

definition corpus8 :: "BlogPost list" where
  "corpus8 = corpus5 @ [examplePost ''p6'' ''six'' 60, examplePost ''p7'' ''seven'' 70,
     examplePost ''p8'' ''eight'' 80]"

definition searchCorpus :: "BlogPost list" where
  "searchCorpus = [examplePost ''a'' ''Alpha Trip'' 30, examplePost ''b'' ''Beta Notes'' 20,
     examplePost ''c'' ''Gamma'' 10]"

text \<open>
  The aggregates a post should carry for a ratings collection, as the specification states
  the recompute: no ratings give 0 and 0, otherwise the mean of the post's ratings times 10,
  rounded, divided by 10, and their number.
  \<open>setAggregates\<close> writes them onto the post with the given id.
\<close>

definition expectedAggregates :: "string \<Rightarrow> Rating list \<Rightarrow> rat \<times> nat" where
  "expectedAggregates pid rs =
     (let xs = filter (\<lambda>r. postId r = pid) rs
      in if xs = [] then (0, 0)
         else (of_int \<lfloor>(of_int (sum_list (map rating xs)) :: rat) / of_nat (length xs) * 10 + 1 / 2\<rfloor> / 10,
               length xs))"

definition setAggregates :: "string \<Rightarrow> rat \<times> nat \<Rightarrow> BlogPost list \<Rightarrow> BlogPost list" where
  "setAggregates pid agg ps =
     map (\<lambda>p. if post_id p = pid then p\<lparr>avgRating := fst agg, totalRatings := snd agg\<rparr> else p) ps"

text \<open>At most one rating per pair of post and author.\<close>

definition onePerPair :: "Rating list \<Rightarrow> bool" where
  "onePerPair rs = distinct (map (\<lambda>r. (postId r, authorId r)) rs)"

text \<open>
  A store with one post and no ratings, and the stores that the code reaches from it when
  alice rates 5, then bob rates 3, then alice rates again, with 1.
\<close>

definition ratingDb0 :: firestore where
  "ratingDb0 = \<lparr>postsCollection = [examplePost ''p'' ''Post'' 1], ratingsCollection = []\<rparr>"

definition ratingDb1 :: firestore where
  "ratingDb1 = snd (addOrUpdateRating 1000 ''p'' 5 ''alice'' ratingDb0)"

definition ratingDb2 :: firestore where
  "ratingDb2 = snd (addOrUpdateRating 2000 ''p'' 3 ''bob'' ratingDb1)"

definition ratingDb3 :: firestore where
  "ratingDb3 = snd (addOrUpdateRating 3000 ''p'' 1 ''alice'' ratingDb2)"

text \<open>
  A sequence of calls of addOrUpdateRating on one post, each run to completion before the
  next, and the authors and stars that the ratings collection holds for a post.
\<close>

fun submitRatings :: "int \<Rightarrow> string \<Rightarrow> (string \<times> int) list \<Rightarrow> firestore \<Rightarrow> firestore" where
  "submitRatings now pid [] db = db"
| "submitRatings now pid ((aid, r) # rest) db =
     submitRatings now pid rest (snd (addOrUpdateRating now pid r aid db))"

definition starsOf :: "string \<Rightarrow> firestore \<Rightarrow> (string \<times> int) list" where
  "starsOf pid db =
     map (\<lambda>x. (authorId x, rating x)) (filter (\<lambda>x. postId x = pid) (ratingsCollection db))"

section \<open>Properties of the storage service\<close>

text \<open>
  Claim C7. validateFile reports an error exactly when the file is larger than 500 MiB
  (500 * 1024 * 1024 bytes) or its MIME type is not one of the ten allowed image and video
  types, and reports valid otherwise. In particular every file of 501 MiB is rejected,
  a JPEG of 499 MiB is accepted, and the type text/plain is rejected whatever the size.
\<close>

theorem validateFile_exact:
  "(valid (validateFile f) \<longleftrightarrow>
      \<not> (file_size f > 500 * 1024 * 1024 \<or> file_type f \<notin> set ALLOWED_TYPES))
   \<and> (error (validateFile f) \<noteq> None \<longleftrightarrow>
      (file_size f > 500 * 1024 * 1024 \<or> file_type f \<notin> set ALLOWED_TYPES))
   \<and> \<not> valid (validateFile \<lparr>file_name = n1, file_type = t1, file_size = 501 * 1024 * 1024\<rparr>)
   \<and> valid (validateFile \<lparr>file_name = n2, file_type = ''image/jpeg'', file_size = 499 * 1024 * 1024\<rparr>)
   \<and> \<not> valid (validateFile \<lparr>file_name = n3, file_type = ''text/plain'', file_size = s3\<rparr>)"
  by (simp add: validateFile_def MAX_SIZE_def ALLOWED_TYPES_def ALLOWED_IMAGE_TYPES_def
      ALLOWED_VIDEO_TYPES_def)

theorem validateFile_exact_witness:
  "valid (validateFile \<lparr>file_name = ''a.png'', file_type = ''image/png'', file_size = 524288000\<rparr>)
   \<and> \<not> valid (validateFile \<lparr>file_name = ''a.png'', file_type = ''image/png'', file_size = 524288001\<rparr>)
   \<and> \<not> valid (validateFile \<lparr>file_name = ''a.txt'', file_type = ''text/plain'', file_size = 10\<rparr>)"
  using validateFile_exact [of "\<lparr>file_name = ''a.png'', file_type = ''image/png'', file_size = 524288000\<rparr>"]
    validateFile_exact [of "\<lparr>file_name = ''a.png'', file_type = ''image/png'', file_size = 524288001\<rparr>"]
    validateFile_exact [of _ _ _ _ "''a.txt''" 10]
  by (simp add: ALLOWED_TYPES_def ALLOWED_IMAGE_TYPES_def ALLOWED_VIDEO_TYPES_def)

lemma startsWith_prefix: "startsWith s p \<longleftrightarrow> prefix p s"
  by (induction s p rule: startsWith.induct) auto

lemma map_of_removeObject: "map_of (removeObject p st) q = (if q = p then None else map_of st q)"
  by (induction st) (auto simp: removeObject_def)

lemma cleanupStep_eq:
  "cleanupStep be now p st = (if doomed be now st p then removeObject p st else st)"
  by (auto simp: cleanupStep_def doomed_def getFileMetadata_def getMetadata_def deleteFile_def
      deleteObject_def Let_def split: option.splits)

lemma doomed_removeObject:
  "q \<noteq> p \<Longrightarrow> doomed be now (removeObject p st) q = doomed be now st q"
  by (simp add: doomed_def map_of_removeObject)

lemma cleanupLoop_filter:
  "cleanupLoop be now ps st = filter (\<lambda>(q, b). \<not> (q \<in> set ps \<and> doomed be now st q)) st"
proof (induction ps arbitrary: st)
  case Nil
  show ?case by simp
next
  case (Cons p ps)
  show ?case
  proof (cases "doomed be now st p")
    case True
    have "cleanupLoop be now (p # ps) st = cleanupLoop be now ps (removeObject p st)"
      using True by (simp add: cleanupStep_eq)
    also have "\<dots> = filter (\<lambda>(q, b). \<not> (q \<in> set ps \<and> doomed be now (removeObject p st) q))
                       (removeObject p st)"
      by (rule Cons.IH)
    also have "\<dots> = filter (\<lambda>(q, b). \<not> (q \<in> set (p # ps) \<and> doomed be now st q)) st"
    proof -
      have "\<And>q b. (q \<noteq> p \<and> \<not> (q \<in> set ps \<and> doomed be now (removeObject p st) q))
                 = (\<not> (q \<in> set (p # ps) \<and> doomed be now st q))"
      proof -
        fix q :: string and b :: blob
        show "(q \<noteq> p \<and> \<not> (q \<in> set ps \<and> doomed be now (removeObject p st) q))
                 = (\<not> (q \<in> set (p # ps) \<and> doomed be now st q))"
        proof (cases "q = p")
          case True
          with \<open>doomed be now st p\<close> show ?thesis by simp
        next
          case False
          then show ?thesis by (simp add: doomed_removeObject)
        qed
      qed
      then have "filter (\<lambda>x. (case x of (q, b) \<Rightarrow> q \<noteq> p) \<and>
                   (case x of (q, b) \<Rightarrow> \<not> (q \<in> set ps \<and> doomed be now (removeObject p st) q))) st
            = filter (\<lambda>(q, b). \<not> (q \<in> set (p # ps) \<and> doomed be now st q)) st"
        by (intro filter_cong) auto
      then show ?thesis
        by (simp add: removeObject_def [of p st])
    qed
    finally show ?thesis .
  next
    case False
    have "cleanupLoop be now (p # ps) st = cleanupLoop be now ps st"
      using False by (simp add: cleanupStep_eq)
    also have "\<dots> = filter (\<lambda>(q, b). \<not> (q \<in> set ps \<and> doomed be now st q)) st"
      by (rule Cons.IH)
    also have "\<dots> = filter (\<lambda>(q, b). \<not> (q \<in> set (p # ps) \<and> doomed be now st q)) st"
      by (rule filter_cong) (use False in auto)
    finally show ?thesis .
  qed
qed

lemma listed_iff:
  "(q, b) \<in> set st \<Longrightarrow> q \<in> set (map fst (filter (\<lambda>(q, b). P q) st)) \<longleftrightarrow> P q"
  by force

lemma doomed_distinct:
  "distinct (map fst st) \<Longrightarrow> (q, b) \<in> set st \<Longrightarrow>
   doomed be now st q = (\<not> metadataFails be q \<and> \<not> deleteFails be q \<and> now - blob_timeCreated b > oneDayMs)"
  by (simp add: doomed_def)

text \<open>
  Claim C8. For a fixed \<open>now\<close>, cleanupTempFiles never returns an error, and the bucket it
  leaves is the old one without exactly the objects directly under \<open>temp/userId\<close> whose
  creation time lies strictly more than 24 hours (86400000 ms) before \<open>now\<close>, as far as their
  metadata could be fetched and their removal did not fail. A failure on one object keeps that
  object and does not stop the sweep of the others; if the listing itself fails nothing is
  removed. Every object whose age is at most 24 hours, the boundary included, is retained.
  Paths are the keys of the bucket, hence distinct.
\<close>

theorem cleanupTempFiles_sweep:
  assumes "distinct (map fst st)"
  shows "fst (cleanupTempFiles be now userId st) = Inr ()
    \<and> snd (cleanupTempFiles be now userId st) =
        (if listFails be (''temp/'' @ userId) then st
         else filter (\<lambda>(q, b). \<not> (directlyUnder (''temp/'' @ userId) q
                 \<and> now - blob_timeCreated b > 24 * 60 * 60 * 1000
                 \<and> \<not> metadataFails be q \<and> \<not> deleteFails be q)) st)
    \<and> (\<forall>q b. (q, b) \<in> set st \<and> now - blob_timeCreated b \<le> 24 * 60 * 60 * 1000
          \<longrightarrow> (q, b) \<in> set (snd (cleanupTempFiles be now userId st)))"
proof -
  let ?dir = "''temp/'' @ userId"
  have ok: "fst (cleanupTempFiles be now userId st) = Inr ()"
    by (simp add: cleanupTempFiles_def split: sum.splits)
  have sw: "snd (cleanupTempFiles be now userId st) =
        (if listFails be ?dir then st
         else filter (\<lambda>(q, b). \<not> (directlyUnder ?dir q
                 \<and> now - blob_timeCreated b > 24 * 60 * 60 * 1000
                 \<and> \<not> metadataFails be q \<and> \<not> deleteFails be q)) st)"
  proof (cases "listFails be ?dir")
    case True
    then show ?thesis by (simp add: cleanupTempFiles_def listFiles_def listAll_def)
  next
    case False
    have "snd (cleanupTempFiles be now userId st) =
          cleanupLoop be now (map fst (filter (\<lambda>(q, b). directlyUnder ?dir q) st)) st"
      using False by (simp add: cleanupTempFiles_def listFiles_def listAll_def)
    also have "\<dots> = filter (\<lambda>(q, b). \<not> (q \<in> set (map fst (filter (\<lambda>(q, b). directlyUnder ?dir q) st))
                       \<and> doomed be now st q)) st"
      by (rule cleanupLoop_filter)
    also have "\<dots> = filter (\<lambda>(q, b). \<not> (directlyUnder ?dir q
                 \<and> now - blob_timeCreated b > 24 * 60 * 60 * 1000
                 \<and> \<not> metadataFails be q \<and> \<not> deleteFails be q)) st"
      by (rule filter_cong) (use assms in \<open>auto simp: doomed_distinct oneDayMs_def listed_iff simp del: set_map set_filter\<close>)
    finally show ?thesis using False by simp
  qed
  show ?thesis
    unfolding sw using ok by auto
qed

theorem cleanupTempFiles_sweep_witness:
  "distinct (map fst example_bucket)
   \<and> fst (cleanupTempFiles example_backend 100000000 ''u1'' example_bucket) = Inr ()
   \<and> map fst (snd (cleanupTempFiles example_backend 100000000 ''u1'' example_bucket))
       = [''temp/u1/b.png'', ''temp/u1/c.png'', ''temp/u2/d.png'']"
proof -
  have d: "distinct (map fst example_bucket)"
    by (simp add: example_bucket_def)
  show ?thesis
    using d cleanupTempFiles_sweep [OF d, of example_backend 100000000 "''u1''"]
    by (simp add: example_bucket_def example_backend_def directlyUnder_def)
qed

text \<open>
  Claim C10. uploadFile checks neither size nor MIME type: for every file, whenever the two
  backend calls succeed it stores the object and returns a MediaItem, whose type is Image
  exactly when the MIME type starts with \<open>image/\<close> and Video for every other MIME type. So a
  file of type text/plain, which validateFile rejects, comes back with type Video.
\<close>

theorem uploadFile_classifies:
  assumes "\<not> uploadFails be (storagePath timestamp f userId optPostId)"
      and "\<not> urlFails be (storagePath timestamp f userId optPostId)"
  shows "\<exists>item st'. uploadFile be timestamp created f userId optPostId st = (Inr item, st')
          \<and> (media_type item = Image \<longleftrightarrow> prefix ''image/'' (file_type f))
          \<and> (media_type item = Video \<longleftrightarrow> \<not> prefix ''image/'' (file_type f))
          \<and> map_of st' (storagePath timestamp f userId optPostId)
               = Some \<lparr>blob_contentType = file_type f, blob_size = file_size f,
                        blob_timeCreated = serverTime be\<rparr>
          \<and> (file_type f = ''text/plain'' \<longrightarrow> media_type item = Video \<and> \<not> valid (validateFile f))"
  using assms
  by (auto simp: uploadFile_def uploadBytes_def getDownloadURL_def Let_def startsWith_prefix
      validateFile_def ALLOWED_TYPES_def ALLOWED_IMAGE_TYPES_def ALLOWED_VIDEO_TYPES_def)

theorem uploadFile_classifies_witness:
  "fst (uploadFile example_backend 42 43
          \<lparr>file_name = ''notes.txt'', file_type = ''text/plain'', file_size = 600 * 1024 * 1024\<rparr>
          ''u1'' None example_bucket)
     = Inr \<lparr>media_id = ''42-notes.txt'', media_url = ''https://cdn.test/temp/u1/42-notes.txt'',
            media_type = Video, media_filename = ''notes.txt'', media_size = 629145600,
            media_createdAt = 43\<rparr>
   \<and> \<not> valid (validateFile \<lparr>file_name = ''notes.txt'', file_type = ''text/plain'', file_size = 600 * 1024 * 1024\<rparr>)"
  using uploadFile_classifies [of example_backend 42
          "\<lparr>file_name = ''notes.txt'', file_type = ''text/plain'', file_size = 600 * 1024 * 1024\<rparr>"
          "''u1''" None 43 example_bucket]
  by (auto simp: example_backend_def uploadFile_def uploadBytes_def getDownloadURL_def Let_def
      storagePath_def showNat.simps digit_char_def validateFile_def MAX_SIZE_def)

section \<open>Properties of the database service\<close>

lemma filter_after_nth:
  assumes "sorted_wrt R xs" and "\<And>a b. R a b \<Longrightarrow> \<not> R b a" and "i < length xs"
  shows "filter (R (xs ! i)) xs = drop (Suc i) xs"
  using assms(1,3)
proof (induction xs arbitrary: i)
  case Nil
  then show ?case by simp
next
  case (Cons y ys)
  have irr: "\<not> R y y" using assms(2) by blast
  show ?case
  proof (cases i)
    case 0
    have "filter (R y) ys = ys"
      using Cons.prems(1) by (intro filter_True) simp
    with 0 irr show ?thesis by simp
  next
    case (Suc j)
    with Cons.prems have j: "j < length ys" by simp
    then have "R y (ys ! j)" using Cons.prems(1) by simp
    then have "\<not> R (ys ! j) y" using assms(2) by blast
    moreover have "filter (R (ys ! j)) ys = drop (Suc j) ys"
      using Cons.IH [OF _ j] Cons.prems(1) by simp
    ultimately show ?thesis using Suc by simp
  qed
qed

lemma comesAfter_asym: "comesAfter fld dir a b \<Longrightarrow> \<not> comesAfter fld dir b a"
  by (cases dir) (auto simp: comesAfter_def)

lemma distinct_orderKey:
  "distinct (map post_id coll) \<Longrightarrow> distinct (map (orderKey fld) coll)"
  by (induction coll) (auto simp: orderKey_def)

lemma sorted_wrt_orderBy:
  assumes "distinct (map post_id coll)"
  shows "sorted_wrt (comesAfter fld dir) (orderBy fld dir coll)"
proof -
  let ?ys = "sort_key (orderKey fld) coll"
  have "distinct (map (orderKey fld) coll)" using assms by (rule distinct_orderKey)
  then have "distinct (map (orderKey fld) ?ys)"
    by (simp add: distinct_map)
  moreover have "sorted (map (orderKey fld) ?ys)" by simp
  ultimately have "sorted_wrt (<) (map (orderKey fld) ?ys)"
    by (simp add: strict_sorted_iff)
  then have asc: "sorted_wrt (\<lambda>a b. orderKey fld a < orderKey fld b) ?ys"
    by (simp add: sorted_wrt_map)
  show ?thesis
  proof (cases dir)
    case Asc
    with asc show ?thesis by (simp add: orderBy_def comesAfter_def [abs_def])
  next
    case Desc
    with asc show ?thesis by (simp add: orderBy_def comesAfter_def [abs_def] sorted_wrt_rev)
  qed
qed

lemma length_orderBy: "length (orderBy fld dir coll) = length coll"
  by (cases dir) (simp_all add: orderBy_def)

lemma startAfter_position:
  assumes "distinct (map post_id coll)" and "j \<le> length coll"
  shows "startAfter fld dir (if j = 0 then None else Some (orderBy fld dir coll ! (j - 1)))
           (orderBy fld dir coll) = drop j (orderBy fld dir coll)"
proof (cases j)
  case 0
  then show ?thesis by (simp add: startAfter_def)
next
  case (Suc i)
  with assms(2) have "i < length (orderBy fld dir coll)" by (simp add: length_orderBy)
  from filter_after_nth [OF sorted_wrt_orderBy [OF assms(1)] comesAfter_asym this]
  show ?thesis using Suc by (simp add: startAfter_def)
qed

lemma page_cut:
  "length docs \<le> Suc k \<Longrightarrow> (if k < length docs then butlast docs else docs) = take k docs"
proof (cases "k < length docs")
  case True
  assume "length docs \<le> Suc k"
  with True have "length docs = Suc k" by simp
  then show ?thesis by (simp add: butlast_conv_take)
next
  case False
  then show ?thesis by simp
qed

lemma last_butlast_nth:
  assumes "length docs = Suc k" and "0 < k"
  shows "last (butlast docs) = docs ! (k - 1)"
proof -
  have "butlast docs = take k docs" using assms by (simp add: butlast_conv_take)
  moreover have "take k docs \<noteq> []" using assms by auto
  ultimately show ?thesis using assms by (simp add: last_conv_nth)
qed

lemma getPosts_general:
  "posts (getPosts \<lparr>opt_sortBy = Some sb, opt_limit = Some k, opt_startAfter = cursor\<rparr> coll)
     = take k (getDocs (fst (sortOrder sb)) (snd (sortOrder sb)) (k + 1) cursor coll)"
  "hasMore (getPosts \<lparr>opt_sortBy = Some sb, opt_limit = Some k, opt_startAfter = cursor\<rparr> coll)
     \<longleftrightarrow> length (getDocs (fst (sortOrder sb)) (snd (sortOrder sb)) (k + 1) cursor coll) = k + 1"
proof -
  let ?docs = "getDocs (fst (sortOrder sb)) (snd (sortOrder sb)) (k + 1) cursor coll"
  have len: "length ?docs \<le> Suc k" by (simp add: getDocs_def)
  show "posts (getPosts \<lparr>opt_sortBy = Some sb, opt_limit = Some k, opt_startAfter = cursor\<rparr> coll)
     = take k ?docs"
    using page_cut [OF len] by (simp add: getPosts_def Let_def del: One_nat_def)
  show "hasMore (getPosts \<lparr>opt_sortBy = Some sb, opt_limit = Some k, opt_startAfter = cursor\<rparr> coll)
     \<longleftrightarrow> length ?docs = k + 1"
    using len by (auto simp: getPosts_def Let_def)
qed

lemma getPosts_lastDoc:
  "lastDoc (getPosts \<lparr>opt_sortBy = Some sb, opt_limit = Some k, opt_startAfter = cursor\<rparr> coll)
     = (if hasMore (getPosts \<lparr>opt_sortBy = Some sb, opt_limit = Some k, opt_startAfter = cursor\<rparr> coll) \<and> 0 < k
        then Some (last (posts (getPosts \<lparr>opt_sortBy = Some sb, opt_limit = Some k, opt_startAfter = cursor\<rparr> coll)))
        else None)"
proof -
  let ?docs = "getDocs (fst (sortOrder sb)) (snd (sortOrder sb)) (k + 1) cursor coll"
  have "last (butlast ?docs) = ?docs ! (k - 1)" if "k < length ?docs" "0 < k"
  proof -
    have "length ?docs = k + 1" using that by (simp add: getDocs_def)
    then show ?thesis using that last_butlast_nth [of ?docs k] by simp
  qed
  then show ?thesis
    by (auto simp: getPosts_def Let_def)
qed

lemma getPosts_at:
  assumes "distinct (map post_id coll)" and "0 < k" and "j \<le> length coll"
  shows "getPosts \<lparr>opt_sortBy = Some sb, opt_limit = Some k,
            opt_startAfter = (if j = 0 then None
               else Some (orderBy (fst (sortOrder sb)) (snd (sortOrder sb)) coll ! (j - 1)))\<rparr> coll
         = \<lparr>posts = take k (drop j (orderBy (fst (sortOrder sb)) (snd (sortOrder sb)) coll)),
            hasMore = (k < length coll - j),
            lastDoc = (if k < length coll - j
               then Some (orderBy (fst (sortOrder sb)) (snd (sortOrder sb)) coll ! (j + k - 1))
               else None)\<rparr>"
proof -
  let ?fld = "fst (sortOrder sb)" and ?dir = "snd (sortOrder sb)"
  let ?xs = "orderBy ?fld ?dir coll"
  let ?cur = "if j = 0 then None else Some (?xs ! (j - 1))"
  let ?docs = "getDocs ?fld ?dir (k + 1) ?cur coll"
  let ?pg = "getPosts \<lparr>opt_sortBy = Some sb, opt_limit = Some k, opt_startAfter = ?cur\<rparr> coll"
  have docs: "?docs = take (Suc k) (drop j ?xs)"
    unfolding getDocs_def startAfter_position [OF assms(1,3)] by simp
  have len: "length ?docs = min (Suc k) (length coll - j)"
    unfolding docs by (simp add: length_orderBy)
  have more: "hasMore ?pg \<longleftrightarrow> k < length coll - j"
    unfolding getPosts_general(2) len by auto
  have ps: "posts ?pg = take k (drop j ?xs)"
    unfolding getPosts_general(1) docs by (simp add: min_def)
  have last: "lastDoc ?pg = (if k < length coll - j then Some (?xs ! (j + k - 1)) else None)"
  proof (cases "k < length coll - j")
    case True
    then have "k \<le> length (drop j ?xs)" by (simp add: length_orderBy)
    then have "take k (drop j ?xs) \<noteq> []" using assms(2) True by auto
    then have "last (take k (drop j ?xs)) = take k (drop j ?xs) ! (k - 1)"
      using \<open>k \<le> length (drop j ?xs)\<close> by (simp add: last_conv_nth min_def)
    also have "\<dots> = ?xs ! (j + k - 1)"
      using assms(2,3) True by (simp add: length_orderBy)
    finally show ?thesis
      unfolding getPosts_lastDoc more ps using True assms(2) by simp
  next
    case False
    then show ?thesis unfolding getPosts_lastDoc more by simp
  qed
  have "?pg = \<lparr>posts = posts ?pg, hasMore = hasMore ?pg, lastDoc = lastDoc ?pg\<rparr>"
    by simp
  then show ?thesis unfolding more ps last .
qed

lemma fetchPages_step:
  assumes "distinct (map post_id coll)" and "0 < k" and "j \<le> length coll"
  shows "fetchPages (Suc fuel) sb k
            (if j = 0 then None
             else Some (orderBy (fst (sortOrder sb)) (snd (sortOrder sb)) coll ! (j - 1))) coll
         = \<lparr>posts = take k (drop j (orderBy (fst (sortOrder sb)) (snd (sortOrder sb)) coll)),
            hasMore = (k < length coll - j),
            lastDoc = (if k < length coll - j
               then Some (orderBy (fst (sortOrder sb)) (snd (sortOrder sb)) coll ! (j + k - 1))
               else None)\<rparr>
           # (if k < length coll - j
              then fetchPages fuel sb k
                     (if j + k = 0 then None
                      else Some (orderBy (fst (sortOrder sb)) (snd (sortOrder sb)) coll ! (j + k - 1))) coll
              else [])"
proof -
  have jk: "j + k \<noteq> 0" using assms(2) by simp
  show ?thesis
    unfolding fetchPages.simps(2) Let_def getPosts_at [OF assms] page.simps if_not_P [OF jk]
    by (cases "k < length coll - j") simp_all
qed

lemma fetchPages_four:
  assumes "distinct (map post_id coll)" and "length coll = k * 3 + 2" and "2 \<le> k"
  shows "fetchPages (Suc (Suc (Suc (Suc extra)))) sb k None coll =
     (let xs = orderBy (fst (sortOrder sb)) (snd (sortOrder sb)) coll in
      [\<lparr>posts = take k xs, hasMore = True, lastDoc = Some (xs ! (k - 1))\<rparr>,
       \<lparr>posts = take k (drop k xs), hasMore = True, lastDoc = Some (xs ! (2 * k - 1))\<rparr>,
       \<lparr>posts = take k (drop (2 * k) xs), hasMore = True, lastDoc = Some (xs ! (3 * k - 1))\<rparr>,
       \<lparr>posts = drop (3 * k) xs, hasMore = False, lastDoc = None\<rparr>])"
proof -
  have k: "0 < k" using assms(3) by simp
  let ?xs = "orderBy (fst (sortOrder sb)) (snd (sortOrder sb)) coll"
  have s0: "fetchPages (Suc (Suc (Suc (Suc extra)))) sb k None coll =
      \<lparr>posts = take k ?xs, hasMore = True, lastDoc = Some (?xs ! (k - 1))\<rparr>
      # fetchPages (Suc (Suc (Suc extra))) sb k (Some (?xs ! (k - 1))) coll"
    using fetchPages_step [OF assms(1) k, of 0 "Suc (Suc (Suc extra))" sb] assms(2,3) by simp
  have s1: "fetchPages (Suc (Suc (Suc extra))) sb k (Some (?xs ! (k - 1))) coll =
      \<lparr>posts = take k (drop k ?xs), hasMore = True, lastDoc = Some (?xs ! (2 * k - 1))\<rparr>
      # fetchPages (Suc (Suc extra)) sb k (Some (?xs ! (2 * k - 1))) coll"
    using fetchPages_step [OF assms(1) k, of k "Suc (Suc extra)" sb] assms(2,3)
    by (simp add: mult_2)
  have s2: "fetchPages (Suc (Suc extra)) sb k (Some (?xs ! (2 * k - 1))) coll =
      \<lparr>posts = take k (drop (2 * k) ?xs), hasMore = True, lastDoc = Some (?xs ! (3 * k - 1))\<rparr>
      # fetchPages (Suc extra) sb k (Some (?xs ! (3 * k - 1))) coll"
    using fetchPages_step [OF assms(1) k, of "2 * k" "Suc extra" sb] assms(2,3)
    by (simp add: algebra_simps)
  have "length (drop (3 * k) ?xs) \<le> k"
    using assms(2,3) by (simp add: length_orderBy)
  then have s3: "fetchPages (Suc extra) sb k (Some (?xs ! (3 * k - 1))) coll =
      [\<lparr>posts = drop (3 * k) ?xs, hasMore = False, lastDoc = None\<rparr>]"
    using fetchPages_step [OF assms(1) k, of "3 * k" extra sb] assms(2,3)
    by simp
  show ?thesis unfolding s0 s1 s2 s3 Let_def ..
qed

text \<open>
  Claim C3, as amended. For every page size \<open>k\<close> and cursor, getPosts fetches \<open>k + 1\<close>
  records in the selected order; \<open>hasMore\<close> holds exactly when the extra record exists, the
  page is the first \<open>k\<close> fetched records, and \<open>lastDoc\<close> is the last record of the page when
  \<open>hasMore\<close> holds and \<open>k\<close> is positive, and absent otherwise. Over a corpus of
  \<open>k * 3 + 2\<close> posts with distinct ids and \<open>k\<close> at least 2, repeated calls that pass the
  returned cursor back stop after exactly 4 pages, of sizes \<open>k, k, k, 2\<close>, with \<open>hasMore\<close> true
  on the first three and false on the last; together the pages list every post once, in order.
\<close>

theorem getPosts_pagination:
  "(let docs = getDocs (fst (sortOrder sb)) (snd (sortOrder sb)) (k + 1) cursor coll;
        pg = getPosts \<lparr>opt_sortBy = Some sb, opt_limit = Some k, opt_startAfter = cursor\<rparr> coll
    in (hasMore pg \<longleftrightarrow> length docs = k + 1)
       \<and> posts pg = take k docs
       \<and> lastDoc pg = (if hasMore pg \<and> 0 < k then Some (last (posts pg)) else None))
   \<and> (distinct (map post_id coll) \<and> length coll = k * 3 + 2 \<and> 2 \<le> k \<longrightarrow>
        map (length \<circ> posts) (fetchPages (4 + extra) sb k None coll) = [k, k, k, 2]
        \<and> map hasMore (fetchPages (4 + extra) sb k None coll) = [True, True, True, False]
        \<and> concat (map posts (fetchPages (4 + extra) sb k None coll))
            = orderBy (fst (sortOrder sb)) (snd (sortOrder sb)) coll)"
proof -
  have call: "(let docs = getDocs (fst (sortOrder sb)) (snd (sortOrder sb)) (k + 1) cursor coll;
        pg = getPosts \<lparr>opt_sortBy = Some sb, opt_limit = Some k, opt_startAfter = cursor\<rparr> coll
    in (hasMore pg \<longleftrightarrow> length docs = k + 1)
       \<and> posts pg = take k docs
       \<and> lastDoc pg = (if hasMore pg \<and> 0 < k then Some (last (posts pg)) else None))"
    unfolding Let_def using getPosts_general [of sb k cursor coll] getPosts_lastDoc [of sb k cursor coll]
    by blast
  have pages: "map (length \<circ> posts) (fetchPages (4 + extra) sb k None coll) = [k, k, k, 2]
        \<and> map hasMore (fetchPages (4 + extra) sb k None coll) = [True, True, True, False]
        \<and> concat (map posts (fetchPages (4 + extra) sb k None coll))
            = orderBy (fst (sortOrder sb)) (snd (sortOrder sb)) coll"
    if h: "distinct (map post_id coll)" "length coll = k * 3 + 2" "2 \<le> k"
  proof -
    let ?xs = "orderBy (fst (sortOrder sb)) (snd (sortOrder sb)) coll"
    have fuel: "4 + extra = Suc (Suc (Suc (Suc extra)))" by simp
    have len: "length ?xs = k * 3 + 2" using h(2) by (simp add: length_orderBy)
    have cat: "take k ?xs @ take k (drop k ?xs) @ take k (drop (2 * k) ?xs) @ drop (3 * k) ?xs = ?xs"
    proof -
      have "take k (drop (2 * k) ?xs) @ drop (3 * k) ?xs = drop (2 * k) ?xs"
        using append_take_drop_id [of k "drop (2 * k) ?xs"] by (simp add: algebra_simps)
      moreover have "take k (drop k ?xs) @ drop (2 * k) ?xs = drop k ?xs"
        using append_take_drop_id [of k "drop k ?xs"] by (simp add: mult_2)
      ultimately show ?thesis by simp
    qed
    show ?thesis
      unfolding fuel fetchPages_four [OF h] Let_def
      using len h(3) cat by (simp add: min_def)
  qed
  from call pages show ?thesis by blast
qed

theorem getPosts_pagination_witness:
  "distinct (map post_id corpus8) \<and> length corpus8 = 2 * 3 + 2 \<and> (2::nat) \<le> 2
   \<and> map (length \<circ> posts) (fetchPages 4 SortNewest 2 None corpus8) = [2, 2, 2, 2]
   \<and> map hasMore (fetchPages 4 SortNewest 2 None corpus8) = [True, True, True, False]
   \<and> map post_id (concat (map posts (fetchPages 4 SortNewest 2 None corpus8)))
       = [''p8'', ''p7'', ''p6'', ''p5'', ''p4'', ''p3'', ''p2'', ''p1'']"
proof -
  have d: "distinct (map post_id corpus8)"
    by (simp add: corpus8_def corpus5_def examplePost_def)
  have l: "length corpus8 = 2 * 3 + 2"
    by (simp add: corpus8_def corpus5_def)
  have o: "map post_id (orderBy CreatedAt Desc corpus8)
       = [''p8'', ''p7'', ''p6'', ''p5'', ''p4'', ''p3'', ''p2'', ''p1'']"
    by code_simp
  show ?thesis
    using d l o getPosts_pagination [of SortNewest 2 None corpus8 0]
    by (simp add: sortOrder_def)
qed

text \<open>
  Claim C3 as stated fails for page size 1: five posts come in five pages of one post each,
  not in pages of sizes 1, 1, 1, 2. And a last page has no cursor although it has posts.
\<close>

theorem getPosts_pagination_counterexample:
  "map (length \<circ> posts) (fetchPages 10 SortNewest 1 None corpus5) = [1, 1, 1, 1, 1]
   \<and> map hasMore (fetchPages 10 SortNewest 1 None corpus5) = [True, True, True, True, False]
   \<and> map (length \<circ> posts) (fetchPages 10 SortNewest 1 None corpus5) \<noteq> [1, 1, 1, 2]
   \<and> posts (getPosts \<lparr>opt_sortBy = Some SortNewest, opt_limit = Some 2, opt_startAfter = None\<rparr> (take 2 corpus5))
       = [examplePost ''p2'' ''two'' 20, examplePost ''p1'' ''one'' 10]
   \<and> lastDoc (getPosts \<lparr>opt_sortBy = Some SortNewest, opt_limit = Some 2, opt_startAfter = None\<rparr> (take 2 corpus5))
       = None"
  by code_simp

lemma includes_str_sublist: "includes_str s t \<longleftrightarrow> sublist t s"
  by (induction s) (simp_all add: startsWith_prefix sublist_Cons_right)

lemma includes_str_empty: "includes_str s []"
  by (simp add: includes_str_sublist)

lemma getPosts_default_order:
  "posts (getPosts \<lparr>opt_sortBy = None, opt_limit = Some k, opt_startAfter = None\<rparr> coll)
     = take k (orderBy CreatedAt Desc coll)"
proof -
  let ?docs = "getDocs CreatedAt Desc (Suc k) None coll"
  have "length ?docs \<le> Suc k" by (simp add: getDocs_def)
  from page_cut [OF this]
  have "posts (getPosts \<lparr>opt_sortBy = None, opt_limit = Some k, opt_startAfter = None\<rparr> coll)
     = take k ?docs"
    by (auto simp: getPosts_def Let_def sortOrder_def split: if_splits)
  then show ?thesis by (simp add: getDocs_def startAfter_def min_def)
qed

lemmas getPosts_batch = getPosts_default_order [of 100]

lemma searchPosts_eq_searchPostsWith: "searchPosts q coll = searchPostsWith toLowerCase q coll"
  by (simp add: searchPosts_def searchPostsWith_def searchContent_def searchContentWith_def)

text \<open>
  Claim C6, as amended. For every query, searchPosts (with the platform's \<open>toLowerCase\<close> as
  the parameter \<open>lower\<close>) takes the at most 100 newest posts,
  lower-cases the query and the concatenation (with single spaces between) of title, content,
  excerpt and tags, splits the query at every space character and at no other whitespace,
  and returns exactly the posts of the batch whose concatenation has at least one piece as a
  contiguous substring. This holds whatever the platform's \<open>toLowerCase\<close> does. When it
  lower-cases strings of ASCII characters in the usual way, the query \<open>alpha beta\<close> on the
  posts titled Alpha Trip, Beta Notes and Gamma returns exactly the first two.
\<close>

theorem searchPosts_or_semantics:
  "searchPostsWith lower q coll =
     filter (\<lambda>p. \<exists>t \<in> set (splitAt (\<lambda>c. c = CHR '' '') (lower q)).
                  sublist t (lower (title p @ '' '' @ content p @ '' '' @ excerpt p @ '' ''
                                     @ join '' '' (tags p))))
       (take 100 (orderBy CreatedAt Desc coll))
   \<and> length (searchPostsWith lower q coll) \<le> 100
   \<and> ((\<forall>s. list_all isAscii s \<longrightarrow> lower s = toLowerCase s) \<longrightarrow>
        map title (searchPostsWith lower ''alpha beta''
          [examplePost i1 ''Alpha Trip'' 30, examplePost i2 ''Beta Notes'' 20, examplePost i3 ''Gamma'' 10])
        = [''Alpha Trip'', ''Beta Notes''])"
proof -
  have a: "searchPostsWith lower q coll =
     filter (\<lambda>p. \<exists>t \<in> set (splitAt (\<lambda>c. c = CHR '' '') (lower q)).
                  sublist t (lower (title p @ '' '' @ content p @ '' '' @ excerpt p @ '' ''
                                     @ join '' '' (tags p))))
       (take 100 (orderBy CreatedAt Desc coll))"
    unfolding searchPostsWith_def Let_def getPosts_batch
    by (simp add: list_ex_iff includes_str_sublist searchContentWith_def)
  have b: "length (searchPostsWith lower q coll) \<le> 100"
    unfolding a by (rule order_trans [OF length_filter_le]) simp
  have c: "map title (searchPostsWith lower ''alpha beta''
          [examplePost i1 ''Alpha Trip'' 30, examplePost i2 ''Beta Notes'' 20, examplePost i3 ''Gamma'' 10])
        = [''Alpha Trip'', ''Beta Notes'']"
    if h: "\<forall>s. list_all isAscii s \<longrightarrow> lower s = toLowerCase s"
  proof -
    have q: "lower ''alpha beta'' = toLowerCase ''alpha beta''"
      using h by (simp add: isAscii_def)
    have t1: "lower ''Alpha Trip   '' = toLowerCase ''Alpha Trip   ''"
      using h by (simp add: isAscii_def)
    have t2: "lower ''Beta Notes   '' = toLowerCase ''Beta Notes   ''"
      using h by (simp add: isAscii_def)
    have t3: "lower ''Gamma   '' = toLowerCase ''Gamma   ''"
      using h by (simp add: isAscii_def)
    have "searchPostsWith lower ''alpha beta''
          [examplePost i1 ''Alpha Trip'' 30, examplePost i2 ''Beta Notes'' 20, examplePost i3 ''Gamma'' 10]
        = searchPosts ''alpha beta''
          [examplePost i1 ''Alpha Trip'' 30, examplePost i2 ''Beta Notes'' 20, examplePost i3 ''Gamma'' 10]"
      unfolding searchPostsWith_def searchPosts_def Let_def getPosts_batch q
      by (simp add: orderBy_def orderKey_def fieldValue_def examplePost_def
          searchContentWith_def searchContent_def t1 t2 t3)
    moreover have "map title (searchPosts ''alpha beta''
          [examplePost i1 ''Alpha Trip'' 30, examplePost i2 ''Beta Notes'' 20, examplePost i3 ''Gamma'' 10])
        = [''Alpha Trip'', ''Beta Notes'']"
      by (simp add: searchPosts_def Let_def getPosts_batch orderBy_def orderKey_def fieldValue_def
        examplePost_def searchContent_def toLowerCase_def toLowerChar_def)
    ultimately show ?thesis by simp
  qed
  from a b c show ?thesis by blast
qed

theorem searchPosts_or_semantics_witness:
  "map title (searchPostsWith toLowerCase ''beta GAMMA'' searchCorpus) = [''Beta Notes'', ''Gamma'']
   \<and> map title (searchPostsWith toLowerCase ''alpha beta'' searchCorpus) = [''Alpha Trip'', ''Beta Notes'']
   \<and> map title (searchPostsWith (map (\<lambda>c. if c = CHR 0xC9 then CHR 0xE9 else toLowerChar c))
                   [CHR 0xE9] [examplePost ''e'' [CHR 0xC9, CHR ''t'', CHR 0xE9] 1])
       = [[CHR 0xC9, CHR ''t'', CHR 0xE9]]"
proof -
  have h: "\<forall>s. list_all isAscii s \<longrightarrow> toLowerCase s = toLowerCase s" by simp
  have 1: "map title (searchPostsWith toLowerCase ''alpha beta'' searchCorpus) = [''Alpha Trip'', ''Beta Notes'']"
    using searchPosts_or_semantics [of toLowerCase "''alpha beta''" searchCorpus "''a''" "''b''" "''c''"] h
    unfolding searchCorpus_def by blast
  have 2: "map title (searchPostsWith toLowerCase ''beta GAMMA'' searchCorpus) = [''Beta Notes'', ''Gamma'']"
    using searchPosts_or_semantics [of toLowerCase "''beta GAMMA''" searchCorpus "''a''" "''b''" "''c''"]
    by (simp add: searchCorpus_def)
      (simp add: orderBy_def orderKey_def fieldValue_def
        examplePost_def toLowerCase_def toLowerChar_def sublist_code)
  have 3: "map title (searchPostsWith (map (\<lambda>c. if c = CHR 0xC9 then CHR 0xE9 else toLowerChar c))
                   [CHR 0xE9] [examplePost ''e'' [CHR 0xC9, CHR ''t'', CHR 0xE9] 1])
       = [[CHR 0xC9, CHR ''t'', CHR 0xE9]]"
    using searchPosts_or_semantics [of "map (\<lambda>c. if c = CHR 0xC9 then CHR 0xE9 else toLowerChar c)"
        "[CHR 0xE9]" "[examplePost ''e'' [CHR 0xC9, CHR ''t'', CHR 0xE9] 1]" "''a''" "''b''" "''c''"]
    by (simp add: orderBy_def examplePost_def toLowerChar_def sublist_code)
  from 1 2 3 show ?thesis by blast
qed

text \<open>
  Claim C6 as stated fails for a query whose words are separated by a tab: the code takes it
  as one token and finds nothing, where splitting on whitespace finds two posts.
\<close>

theorem searchPosts_whitespace_counterexample:
  "searchPosts (''alpha'' @ [CHR 0x09] @ ''beta'') searchCorpus = []
   \<and> map title (spec_searchPosts (''alpha'' @ [CHR 0x09] @ ''beta'') searchCorpus)
       = [''Alpha Trip'', ''Beta Notes'']"
  by (simp add: searchPosts_def spec_searchPosts_def isWhitespace_def Let_def getPosts_batch
        orderBy_def orderKey_def fieldValue_def searchCorpus_def
        examplePost_def searchContent_def toLowerCase_def toLowerChar_def)

lemma toLowerCase_spaces: "set q \<subseteq> {CHR '' ''} \<Longrightarrow> toLowerCase q = q"
  by (induction q) (simp_all add: toLowerCase_def toLowerChar_def)

lemma splitAt_all_separators:
  "(\<And>c. c \<in> set q \<Longrightarrow> sep c) \<Longrightarrow> splitAt sep q = replicate (Suc (length q)) []"
  by (induction q) simp_all

text \<open>
  Claim C9. For a query that is empty or consists of spaces only, every piece of the split is
  the empty string, which occurs in every concatenation, so searchPosts returns the whole
  fetched batch: the at most 100 newest posts.
\<close>

theorem searchPosts_blank_query:
  assumes "set q \<subseteq> {CHR '' ''}"
  shows "splitAt (\<lambda>c. c = CHR '' '') (toLowerCase q) = replicate (length q + 1) []
    \<and> searchPosts q coll
        = posts (getPosts \<lparr>opt_sortBy = None, opt_limit = Some 100, opt_startAfter = None\<rparr> coll)
    \<and> searchPosts q coll = take 100 (orderBy CreatedAt Desc coll)"
proof -
  have sp: "splitAt (\<lambda>c. c = CHR '' '') (toLowerCase q) = replicate (Suc (length q)) []"
    unfolding toLowerCase_spaces [OF assms]
    by (rule splitAt_all_separators) (use assms in auto)
  have "searchPosts q coll
        = posts (getPosts \<lparr>opt_sortBy = None, opt_limit = Some 100, opt_startAfter = None\<rparr> coll)"
    unfolding searchPosts_def Let_def sp by (simp add: includes_str_empty)
  with sp show ?thesis by (simp add: getPosts_batch)
qed

theorem searchPosts_blank_query_witness:
  "set ''  '' \<subseteq> {CHR '' ''}
   \<and> map title (searchPosts ''  '' searchCorpus) = [''Alpha Trip'', ''Beta Notes'', ''Gamma'']
   \<and> map title (searchPosts [] searchCorpus) = [''Alpha Trip'', ''Beta Notes'', ''Gamma'']"
proof -
  have s: "set ''  '' \<subseteq> {CHR '' ''}" by simp
  have e: "set [] \<subseteq> {CHR '' ''}" by simp
  have o: "map title (take 100 (orderBy CreatedAt Desc searchCorpus))
      = [''Alpha Trip'', ''Beta Notes'', ''Gamma'']"
    by (simp add: orderBy_def orderKey_def fieldValue_def searchCorpus_def examplePost_def)
  have "searchPosts ''  '' searchCorpus = take 100 (orderBy CreatedAt Desc searchCorpus)"
    using searchPosts_blank_query [OF s, of searchCorpus] by blast
  moreover have "searchPosts [] searchCorpus = take 100 (orderBy CreatedAt Desc searchCorpus)"
    using searchPosts_blank_query [OF e, of searchCorpus] by blast
  ultimately show ?thesis
    using s o by simp
qed

section \<open>Properties of the rating service\<close>

lemma foldl_plus_sum_list:
  "foldl (\<lambda>sum r. sum + f r) a xs = a + sum_list (map f xs)" for a :: int
  by (induction xs arbitrary: a) simp_all

lemma sum_list_sort_key:
  "sum_list (map f (sort_key k xs)) = sum_list (map f xs)" for f :: "'a \<Rightarrow> int"
proof -
  have "mset (map f (sort_key k xs)) = mset (map f xs)" by simp
  then have "sum_mset (mset (map f (sort_key k xs))) = sum_mset (mset (map f xs))" by simp
  then show ?thesis unfolding sum_mset_sum_list .
qed

lemma updatePostRating_found:
  assumes "list_ex (\<lambda>p. post_id p = pid) (postsCollection db)"
  shows "updatePostRating pid db =
    (None, db\<lparr>postsCollection :=
               setAggregates pid (expectedAggregates pid (ratingsCollection db)) (postsCollection db)\<rparr>)"
proof -
  let ?xs = "filter (\<lambda>r. postId r = pid) (ratingsCollection db)"
  let ?rs = "getPostRatings pid db"
  have len: "length ?rs = length ?xs" by (simp add: getPostRatings_def)
  have tot: "foldl (\<lambda>sum r. sum + rating r) 0 ?rs = sum_list (map rating ?xs)"
    by (simp add: foldl_plus_sum_list getPostRatings_def sum_list_sort_key)
  show ?thesis
  proof (cases "?xs = []")
    case True
    then have "length ?rs = 0" using len by simp
    then show ?thesis using assms True
      by (simp add: updatePostRating_def updatePostDoc_def expectedAggregates_def setAggregates_def Let_def)
  next
    case False
    then have "length ?rs \<noteq> 0" using len by simp
    then show ?thesis using assms False
      unfolding updatePostRating_def expectedAggregates_def Let_def tot len
      by (simp add: updatePostDoc_def setAggregates_def Math_round_def)
  qed
qed

lemma updatePostRating_missing:
  assumes "\<not> list_ex (\<lambda>p. post_id p = pid) (postsCollection db)"
  shows "updatePostRating pid db = (Some NotFoundError, db)"
  using assms by (simp add: updatePostRating_def updatePostDoc_def Let_def)

lemma floor_half: "\<lfloor>(1::rat) / 2\<rfloor> = 0"
  by (simp add: floor_eq_iff)

lemma ratingDb1_eq:
  "ratingDb1 = \<lparr>postsCollection = [examplePost ''p'' ''Post'' 1],
     ratingsCollection = [\<lparr>rating_id = 1, postId = ''p'', authorId = ''alice'', rating = 5,
                            rating_createdAt = 1000\<rparr>]\<rparr>"
  by (simp add: ratingDb1_def ratingDb0_def addOrUpdateRating_def queryRatings_def
      updatePostRating_def getPostRatings_def updatePostDoc_def commit_def newDocId_def
      examplePost_def)

lemma ratingDb2_eq:
  "ratingDb2 = \<lparr>postsCollection = [(examplePost ''p'' ''Post'' 1)\<lparr>avgRating := 5, totalRatings := 1\<rparr>],
     ratingsCollection = [\<lparr>rating_id = 1, postId = ''p'', authorId = ''alice'', rating = 5,
                            rating_createdAt = 1000\<rparr>,
                          \<lparr>rating_id = 2, postId = ''p'', authorId = ''bob'', rating = 3,
                            rating_createdAt = 2000\<rparr>]\<rparr>"
  by (simp add: ratingDb2_def ratingDb1_eq addOrUpdateRating_def queryRatings_def
      updatePostRating_def getPostRatings_def updatePostDoc_def commit_def newDocId_def
      examplePost_def Math_round_def floor_half)

lemma ratingDb3_eq:
  "ratingDb3 = \<lparr>postsCollection = [(examplePost ''p'' ''Post'' 1)\<lparr>avgRating := 4, totalRatings := 2\<rparr>],
     ratingsCollection = [\<lparr>rating_id = 1, postId = ''p'', authorId = ''alice'', rating = 1,
                            rating_createdAt = 3000\<rparr>,
                          \<lparr>rating_id = 2, postId = ''p'', authorId = ''bob'', rating = 3,
                            rating_createdAt = 2000\<rparr>]\<rparr>"
  by (simp add: ratingDb3_def ratingDb2_eq addOrUpdateRating_def queryRatings_def
      updatePostRating_def getPostRatings_def updatePostDoc_def commit_def newDocId_def
      examplePost_def Math_round_def floor_half)

text \<open>
  Claim C1 fails on the code. addOrUpdateRating recomputes the aggregates before it commits
  its own write, so they describe the ratings as they were before the call: after alice's
  rating of 5 on a post without ratings the post still has totalRatings 0 and avgRating 0
  (the claim: 1 and 5), and after bob's rating of 3 it has totalRatings 1 and avgRating 5
  (the claim: 2 and 4).
\<close>

theorem addOrUpdateRating_aggregates_stale:
  "fst (addOrUpdateRating 1000 ''p'' 5 ''alice'' ratingDb0) = None
   \<and> map rating (ratingsCollection ratingDb1) = [5]
   \<and> map totalRatings (postsCollection ratingDb1) = [0]
   \<and> map avgRating (postsCollection ratingDb1) = [0]
   \<and> fst (addOrUpdateRating 2000 ''p'' 3 ''bob'' ratingDb1) = None
   \<and> map rating (ratingsCollection ratingDb2) = [5, 3]
   \<and> map totalRatings (postsCollection ratingDb2) = [1]
   \<and> map avgRating (postsCollection ratingDb2) = [5]"
proof -
  have "fst (addOrUpdateRating 1000 ''p'' 5 ''alice'' ratingDb0) = None"
    by (simp add: ratingDb0_def addOrUpdateRating_def queryRatings_def
      updatePostRating_def getPostRatings_def updatePostDoc_def examplePost_def)
  moreover have "fst (addOrUpdateRating 2000 ''p'' 3 ''bob'' ratingDb1) = None"
    by (simp add: ratingDb1_eq addOrUpdateRating_def queryRatings_def
      updatePostRating_def getPostRatings_def updatePostDoc_def examplePost_def)
  ultimately show ?thesis
    by (simp add: ratingDb1_eq ratingDb2_eq examplePost_def)
qed

text \<open>
  Claim C4 fails on the code in its part on totalRatings. When alice, who has rated already,
  rates again, her row is overwritten and no row is added, but the post's totalRatings goes
  from 1 to 2 and the mean written to the post, 4, is that of the old values 5 and 3 and not
  of the stored values 1 and 3.
\<close>

theorem addOrUpdateRating_rerate_raises_total:
  "map authorId (ratingsCollection ratingDb2) = [''alice'', ''bob'']
   \<and> map totalRatings (postsCollection ratingDb2) = [1]
   \<and> fst (addOrUpdateRating 3000 ''p'' 1 ''alice'' ratingDb2) = None
   \<and> map authorId (ratingsCollection ratingDb3) = [''alice'', ''bob'']
   \<and> map rating (ratingsCollection ratingDb3) = [1, 3]
   \<and> map totalRatings (postsCollection ratingDb3) = [2]
   \<and> map avgRating (postsCollection ratingDb3) = [4]"
proof -
  have "fst (addOrUpdateRating 3000 ''p'' 1 ''alice'' ratingDb2) = None"
    by (simp add: ratingDb2_eq addOrUpdateRating_def queryRatings_def
      updatePostRating_def getPostRatings_def updatePostDoc_def examplePost_def)
  then show ?thesis
    by (simp add: ratingDb2_eq ratingDb3_eq examplePost_def)
qed

lemma addOrUpdateRating_found:
  assumes "list_ex (\<lambda>p. post_id p = pid) (postsCollection db)"
  shows "addOrUpdateRating now pid r aid db =
    (None,
     \<lparr>postsCollection = setAggregates pid (expectedAggregates pid (ratingsCollection db)) (postsCollection db),
      ratingsCollection =
        (case queryRatings pid aid db of
           [] \<Rightarrow> filter (\<lambda>x. rating_id x \<noteq> newDocId (ratingsCollection db)) (ratingsCollection db)
                  @ [\<lparr>rating_id = newDocId (ratingsCollection db), postId = pid, authorId = aid,
                       rating = r, rating_createdAt = now\<rparr>]
         | d # rest \<Rightarrow> map (\<lambda>x. if rating_id x = rating_id d
                                 then x\<lparr>rating := r, rating_createdAt := now\<rparr> else x)
                          (ratingsCollection db))\<rparr>)"
  by (cases "queryRatings pid aid db")
     (simp_all add: addOrUpdateRating_def updatePostRating_found [OF assms] commit_def)

lemma addOrUpdateRating_missing:
  assumes "\<not> list_ex (\<lambda>p. post_id p = pid) (postsCollection db)"
  shows "addOrUpdateRating now pid r aid db = (Some NotFoundError, db)"
  by (simp add: addOrUpdateRating_def updatePostRating_missing [OF assms])

lemma queryRatings_hd:
  "queryRatings pid aid db = d # rest \<Longrightarrow>
     d \<in> set (ratingsCollection db) \<and> postId d = pid \<and> authorId d = aid"
proof -
  assume "queryRatings pid aid db = d # rest"
  then have "d \<in> set (queryRatings pid aid db)" by simp
  then show ?thesis by (simp add: queryRatings_def)
qed

text \<open>
  Claim C2, as amended. addOrUpdateRating has no range check. For every value of stars, inside
  or outside 1..5: if the post exists the call succeeds and the ratings collection then holds
  a rating of that value for the post and author; if the post does not exist the call fails
  with the store's not-found error and leaves the store as it was. It never fails with a
  ValidationError.
\<close>

theorem addOrUpdateRating_no_range_check:
  "(list_ex (\<lambda>p. post_id p = pid) (postsCollection db) \<longrightarrow>
      fst (addOrUpdateRating now pid stars aid db) = None
      \<and> (\<exists>r \<in> set (ratingsCollection (snd (addOrUpdateRating now pid stars aid db))).
            postId r = pid \<and> authorId r = aid \<and> rating r = stars))
   \<and> (\<not> list_ex (\<lambda>p. post_id p = pid) (postsCollection db) \<longrightarrow>
      addOrUpdateRating now pid stars aid db = (Some NotFoundError, db))
   \<and> fst (addOrUpdateRating now pid stars aid db) \<noteq> Some ValidationError"
proof (cases "list_ex (\<lambda>p. post_id p = pid) (postsCollection db)")
  case True
  note eq = addOrUpdateRating_found [OF True, of now stars aid]
  have "\<exists>r \<in> set (ratingsCollection (snd (addOrUpdateRating now pid stars aid db))).
            postId r = pid \<and> authorId r = aid \<and> rating r = stars"
  proof (cases "queryRatings pid aid db")
    case Nil
    then show ?thesis unfolding eq by simp
  next
    case (Cons d rest)
    from queryRatings_hd [OF Cons]
    have d: "d \<in> set (ratingsCollection db)" "postId d = pid" "authorId d = aid" by simp_all
    let ?d' = "d\<lparr>rating := stars, rating_createdAt := now\<rparr>"
    have "?d' \<in> set (ratingsCollection (snd (addOrUpdateRating now pid stars aid db)))"
      unfolding eq using Cons d(1) by (auto simp: image_iff intro!: bexI [of _ d])
    moreover have "postId ?d' = pid \<and> authorId ?d' = aid \<and> rating ?d' = stars"
      using d by simp
    ultimately show ?thesis by blast
  qed
  then show ?thesis using True eq by simp
next
  case False
  then show ?thesis using addOrUpdateRating_missing [OF False, of now stars aid] by simp
qed

theorem addOrUpdateRating_no_range_check_witness:
  "fst (addOrUpdateRating 1000 ''p'' 0 ''alice'' ratingDb0) = None
   \<and> map rating (ratingsCollection (snd (addOrUpdateRating 1000 ''p'' 0 ''alice'' ratingDb0))) = [0]
   \<and> addOrUpdateRating 1000 ''q'' 0 ''alice'' ratingDb0 = (Some NotFoundError, ratingDb0)"
  using addOrUpdateRating_no_range_check [of "''p''" ratingDb0 1000 0 "''alice''"]
    addOrUpdateRating_no_range_check [of "''q''" ratingDb0 1000 0 "''alice''"]
  by (simp add: ratingDb0_def examplePost_def)
     (simp add: addOrUpdateRating_def queryRatings_def
      updatePostRating_def getPostRatings_def updatePostDoc_def commit_def newDocId_def)

text \<open>
  Claim C2 as stated fails for stars = 6: the call succeeds and stores the rating 6.
\<close>

theorem addOrUpdateRating_range_counterexample:
  "fst (addOrUpdateRating 1000 ''p'' 6 ''alice'' ratingDb0) = None
   \<and> fst (addOrUpdateRating 1000 ''p'' 6 ''alice'' ratingDb0) \<noteq> Some ValidationError
   \<and> map rating (ratingsCollection (snd (addOrUpdateRating 1000 ''p'' 6 ''alice'' ratingDb0))) = [6]
   \<and> ratingsCollection (snd (addOrUpdateRating 1000 ''p'' 6 ''alice'' ratingDb0))
        \<noteq> ratingsCollection ratingDb0"
  by (simp add: ratingDb0_def examplePost_def addOrUpdateRating_def queryRatings_def
      updatePostRating_def getPostRatings_def updatePostDoc_def commit_def newDocId_def)

lemma map_update_keys:
  "map (\<lambda>r. (postId r, authorId r))
     (map (\<lambda>x. if c x then x\<lparr>rating := r, rating_createdAt := t\<rparr> else x) xs)
   = map (\<lambda>r. (postId r, authorId r)) xs"
  by (induction xs) auto

text \<open>
  The invariant on the rows themselves does hold: both operations keep at most one rating per
  pair of post and author, and rating again leaves the number of rows as it is.
\<close>

lemma addOrUpdateRating_onePerPair:
  assumes "onePerPair (ratingsCollection db)"
  shows "onePerPair (ratingsCollection (snd (addOrUpdateRating now pid r aid db)))"
proof (cases "list_ex (\<lambda>p. post_id p = pid) (postsCollection db)")
  case False
  then show ?thesis using assms by (simp add: addOrUpdateRating_missing)
next
  case True
  note eq = addOrUpdateRating_found [OF True, of now r aid]
  let ?key = "\<lambda>r. (postId r, authorId r)"
  show ?thesis
  proof (cases "queryRatings pid aid db")
    case Nil
    then have "(pid, aid) \<notin> ?key ` set (ratingsCollection db)"
      by (auto simp: queryRatings_def filter_empty_conv)
    moreover have "distinct (map ?key (filter P (ratingsCollection db)))" for P
      using assms unfolding onePerPair_def by (rule distinct_map_filter)
    ultimately show ?thesis
      unfolding eq onePerPair_def using Nil by auto
  next
    case (Cons d rest)
    have "map ?key (map (\<lambda>x. if rating_id x = rating_id d
                                 then x\<lparr>rating := r, rating_createdAt := now\<rparr> else x)
                          (ratingsCollection db)) = map ?key (ratingsCollection db)"
      by (rule map_update_keys)
    then have "distinct (map ?key (map (\<lambda>x. if rating_id x = rating_id d
                                 then x\<lparr>rating := r, rating_createdAt := now\<rparr> else x)
                          (ratingsCollection db)))"
      using assms by (simp only: onePerPair_def)
    then show ?thesis
      unfolding eq onePerPair_def using Cons by (simp del: map_map)
  qed
qed

lemma addOrUpdateRating_rerate_rows:
  assumes "queryRatings pid aid db = d # rest"
  shows "length (ratingsCollection (snd (addOrUpdateRating now pid r aid db)))
           = length (ratingsCollection db)"
proof (cases "list_ex (\<lambda>p. post_id p = pid) (postsCollection db)")
  case False
  then show ?thesis by (simp add: addOrUpdateRating_missing)
next
  case True
  show ?thesis unfolding addOrUpdateRating_found [OF True] using assms by simp
qed

lemma deleteRating_found:
  assumes "list_ex (\<lambda>p. post_id p = pid) (postsCollection db)"
      and "queryRatings pid aid db = d # rest"
  shows "deleteRating pid aid db =
    (None,
     \<lparr>postsCollection =
        setAggregates pid
          (expectedAggregates pid (filter (\<lambda>r. rating_id r \<noteq> rating_id d) (ratingsCollection db)))
          (postsCollection db),
      ratingsCollection = filter (\<lambda>r. rating_id r \<noteq> rating_id d) (ratingsCollection db)\<rparr>)"
proof -
  have "list_ex (\<lambda>p. post_id p = pid) (postsCollection (deleteRatingDoc (rating_id d) db))"
    using assms(1) by (simp add: deleteRatingDoc_def)
  from updatePostRating_found [OF this] show ?thesis
    using assms(2) by (simp add: deleteRating_def deleteRatingDoc_def)
qed

lemma deleteRating_post_missing:
  assumes "\<not> list_ex (\<lambda>p. post_id p = pid) (postsCollection db)"
      and "queryRatings pid aid db = d # rest"
  shows "deleteRating pid aid db =
    (Some NotFoundError,
     db\<lparr>ratingsCollection := filter (\<lambda>r. rating_id r \<noteq> rating_id d) (ratingsCollection db)\<rparr>)"
proof -
  have "\<not> list_ex (\<lambda>p. post_id p = pid) (postsCollection (deleteRatingDoc (rating_id d) db))"
    using assms(1) by (simp add: deleteRatingDoc_def)
  from updatePostRating_missing [OF this] show ?thesis
    using assms(2) by (simp add: deleteRating_def deleteRatingDoc_def)
qed

text \<open>
  Claim C5, as amended. When no rating of the post by the author exists, deleteRating does
  nothing at all: it deletes nothing and it does not recompute. Otherwise it deletes the
  first such rating and then recomputes: on an existing post it writes onto the post the
  aggregates of the ratings that remain, and when these are none, as after the deletion of
  the post's last rating, both avgRating and totalRatings become 0 by the branch for the
  empty list, without a division. If the post document is missing, the rating is deleted and
  the recompute fails with the store's not-found error.
\<close>

theorem deleteRating_recompute:
  "(queryRatings pid aid db = [] \<longrightarrow> deleteRating pid aid db = (None, db))
    \<and> (\<forall>d rest. queryRatings pid aid db = d # rest
                 \<and> list_ex (\<lambda>p. post_id p = pid) (postsCollection db) \<longrightarrow>
          deleteRating pid aid db =
            (None,
             \<lparr>postsCollection =
                setAggregates pid
                  (expectedAggregates pid
                     (filter (\<lambda>r. rating_id r \<noteq> rating_id d) (ratingsCollection db)))
                  (postsCollection db),
              ratingsCollection = filter (\<lambda>r. rating_id r \<noteq> rating_id d) (ratingsCollection db)\<rparr>))
    \<and> (\<forall>d rest. queryRatings pid aid db = d # rest
                 \<and> \<not> list_ex (\<lambda>p. post_id p = pid) (postsCollection db) \<longrightarrow>
          deleteRating pid aid db =
            (Some NotFoundError,
             db\<lparr>ratingsCollection := filter (\<lambda>r. rating_id r \<noteq> rating_id d) (ratingsCollection db)\<rparr>))
    \<and> (\<forall>d. list_ex (\<lambda>p. post_id p = pid) (postsCollection db)
             \<and> filter (\<lambda>r. postId r = pid) (ratingsCollection db) = [d] \<and> authorId d = aid \<longrightarrow>
          postsCollection (snd (deleteRating pid aid db)) = setAggregates pid (0, 0) (postsCollection db)
          \<and> filter (\<lambda>r. postId r = pid) (ratingsCollection (snd (deleteRating pid aid db))) = [])
    \<and> expectedAggregates pid [] = (0, 0)"
proof -
  have none: "queryRatings pid aid db = [] \<longrightarrow> deleteRating pid aid db = (None, db)"
    by (simp add: deleteRating_def)
  have some: "\<forall>d rest. queryRatings pid aid db = d # rest
                 \<and> list_ex (\<lambda>p. post_id p = pid) (postsCollection db) \<longrightarrow>
          deleteRating pid aid db =
            (None,
             \<lparr>postsCollection =
                setAggregates pid
                  (expectedAggregates pid
                     (filter (\<lambda>r. rating_id r \<noteq> rating_id d) (ratingsCollection db)))
                  (postsCollection db),
              ratingsCollection = filter (\<lambda>r. rating_id r \<noteq> rating_id d) (ratingsCollection db)\<rparr>)"
    using deleteRating_found by blast
  have missing: "\<forall>d rest. queryRatings pid aid db = d # rest
                 \<and> \<not> list_ex (\<lambda>p. post_id p = pid) (postsCollection db) \<longrightarrow>
          deleteRating pid aid db =
            (Some NotFoundError,
             db\<lparr>ratingsCollection := filter (\<lambda>r. rating_id r \<noteq> rating_id d) (ratingsCollection db)\<rparr>)"
    using deleteRating_post_missing by blast
  have last: "postsCollection (snd (deleteRating pid aid db)) = setAggregates pid (0, 0) (postsCollection db)
          \<and> filter (\<lambda>r. postId r = pid) (ratingsCollection (snd (deleteRating pid aid db))) = []"
    if ex: "list_ex (\<lambda>p. post_id p = pid) (postsCollection db)"
      and h: "filter (\<lambda>r. postId r = pid) (ratingsCollection db) = [d]" "authorId d = aid" for d
  proof -
    have "queryRatings pid aid db
            = filter (\<lambda>r. authorId r = aid) (filter (\<lambda>r. postId r = pid) (ratingsCollection db))"
      by (simp add: queryRatings_def conj_commute)
    then have q: "queryRatings pid aid db = [d]" using h by simp
    have "filter (\<lambda>r. postId r = pid) (filter (\<lambda>r. rating_id r \<noteq> rating_id d) (ratingsCollection db))
            = filter (\<lambda>r. rating_id r \<noteq> rating_id d) (filter (\<lambda>r. postId r = pid) (ratingsCollection db))"
      by (simp add: conj_commute)
    then have rem: "filter (\<lambda>r. postId r = pid)
                      (filter (\<lambda>r. rating_id r \<noteq> rating_id d) (ratingsCollection db)) = []"
      using h(1) by simp
    show ?thesis
      unfolding deleteRating_found [OF ex q] using rem
      by (simp add: expectedAggregates_def)
  qed
  have empty: "expectedAggregates pid [] = (0, 0)"
    by (simp add: expectedAggregates_def)
  from none some missing last empty show ?thesis by blast
qed

theorem deleteRating_recompute_witness:
  "list_ex (\<lambda>p. post_id p = ''p'') (postsCollection ratingDb3)
   \<and> deleteRating ''p'' ''carol'' ratingDb3 = (None, ratingDb3)
   \<and> map authorId (ratingsCollection (snd (deleteRating ''p'' ''alice'' ratingDb3))) = [''bob'']
   \<and> map avgRating (postsCollection (snd (deleteRating ''p'' ''alice'' ratingDb3))) = [3]
   \<and> map totalRatings (postsCollection (snd (deleteRating ''p'' ''alice'' ratingDb3))) = [1]
   \<and> ratingsCollection (snd (deleteRating ''p'' ''bob'' (snd (deleteRating ''p'' ''alice'' ratingDb3)))) = []
   \<and> map avgRating (postsCollection (snd (deleteRating ''p'' ''bob'' (snd (deleteRating ''p'' ''alice'' ratingDb3))))) = [0]
   \<and> map totalRatings (postsCollection (snd (deleteRating ''p'' ''bob'' (snd (deleteRating ''p'' ''alice'' ratingDb3))))) = [0]
   \<and> deleteRating ''gone'' ''alice''
        \<lparr>postsCollection = [], ratingsCollection = [\<lparr>rating_id = 1, postId = ''gone'',
            authorId = ''alice'', rating = 5, rating_createdAt = 1000\<rparr>]\<rparr>
       = (Some NotFoundError, \<lparr>postsCollection = [], ratingsCollection = []\<rparr>)"
proof -
  let ?db4 = "\<lparr>postsCollection = [(examplePost ''p'' ''Post'' 1)\<lparr>avgRating := 3, totalRatings := 1\<rparr>],
              ratingsCollection = [\<lparr>rating_id = 2, postId = ''p'', authorId = ''bob'', rating = 3,
                                     rating_createdAt = 2000\<rparr>]\<rparr>"
  let ?db5 = "\<lparr>postsCollection = [(examplePost ''p'' ''Post'' 1)\<lparr>avgRating := 0, totalRatings := 0\<rparr>],
              ratingsCollection = []\<rparr>"
  let ?gone = "\<lparr>postsCollection = [], ratingsCollection = [\<lparr>rating_id = 1, postId = ''gone'',
            authorId = ''alice'', rating = 5, rating_createdAt = 1000\<rparr>]\<rparr>"
  have ex: "list_ex (\<lambda>p. post_id p = ''p'') (postsCollection ratingDb3)"
    by (simp add: ratingDb3_eq examplePost_def)
  have alice: "deleteRating ''p'' ''alice'' ratingDb3 = (None, ?db4)"
    by (simp add: ratingDb3_eq deleteRating_def queryRatings_def deleteRatingDoc_def
      updatePostRating_def getPostRatings_def updatePostDoc_def examplePost_def Math_round_def floor_half)
  have bob: "deleteRating ''p'' ''bob'' ?db4 = (None, ?db5)"
    by (simp add: deleteRating_def queryRatings_def deleteRatingDoc_def
      updatePostRating_def getPostRatings_def updatePostDoc_def examplePost_def)
  have "queryRatings ''p'' ''carol'' ratingDb3 = []"
    by (simp add: ratingDb3_eq queryRatings_def)
  then have carol: "deleteRating ''p'' ''carol'' ratingDb3 = (None, ratingDb3)"
    using deleteRating_recompute [of "''p''" "''carol''" ratingDb3] by blast
  have gone: "deleteRating ''gone'' ''alice'' ?gone = (Some NotFoundError, \<lparr>postsCollection = [], ratingsCollection = []\<rparr>)"
    by (simp add: deleteRating_def queryRatings_def deleteRatingDoc_def
      updatePostRating_def getPostRatings_def updatePostDoc_def)
  show ?thesis
    unfolding alice snd_conv bob carol gone using ex by (simp add: examplePost_def)
qed

text \<open>
  Claim C5 as stated fails when no rating matches: the recompute is skipped. On the store
  reached by three ratings, where the post carries 4 and 2 while the stored ratings 1 and 3
  have the mean 2, deleting the rating of an author who has none leaves 4 and 2; a recompute
  would write 2 and 2.
\<close>

theorem deleteRating_no_match_counterexample:
  "queryRatings ''p'' ''carol'' ratingDb3 = []
   \<and> map rating (ratingsCollection ratingDb3) = [1, 3]
   \<and> deleteRating ''p'' ''carol'' ratingDb3 = (None, ratingDb3)
   \<and> map avgRating (postsCollection (snd (deleteRating ''p'' ''carol'' ratingDb3))) = [4]
   \<and> map totalRatings (postsCollection (snd (deleteRating ''p'' ''carol'' ratingDb3))) = [2]
   \<and> map avgRating (postsCollection (snd (updatePostRating ''p'' ratingDb3))) = [2]
   \<and> map totalRatings (postsCollection (snd (updatePostRating ''p'' ratingDb3))) = [2]"
proof -
  have q: "queryRatings ''p'' ''carol'' ratingDb3 = []"
    by (simp add: ratingDb3_eq queryRatings_def)
  then have d: "deleteRating ''p'' ''carol'' ratingDb3 = (None, ratingDb3)"
    by (simp add: deleteRating_def)
  have u: "postsCollection (snd (updatePostRating ''p'' ratingDb3))
      = [(examplePost ''p'' ''Post'' 1)\<lparr>avgRating := 2, totalRatings := 2\<rparr>]"
    by (simp add: ratingDb3_eq updatePostRating_def getPostRatings_def updatePostDoc_def
      examplePost_def Math_round_def floor_half)
  show ?thesis
    unfolding d snd_conv u using q by (simp add: ratingDb3_eq examplePost_def)
qed

lemma deleteRating_onePerPair:
  assumes "onePerPair (ratingsCollection db)"
  shows "onePerPair (ratingsCollection (snd (deleteRating pid aid db)))"
proof -
  have "ratingsCollection (snd (updatePostRating pid db')) = ratingsCollection db'" for db'
    by (simp add: updatePostRating_def updatePostDoc_def Let_def)
  then show ?thesis
    using assms unfolding onePerPair_def
    by (cases "queryRatings pid aid db")
       (simp_all add: deleteRating_def deleteRatingDoc_def distinct_map_filter)
qed

lemma newDocId_fresh: "x \<in> set rs \<Longrightarrow> rating_id x < newDocId rs"
  by (induction rs) (auto simp: newDocId_def)

lemma filter_newDocId: "filter (\<lambda>x. rating_id x \<noteq> newDocId rs) rs = rs"
  using newDocId_fresh [of _ rs] by (intro filter_True) fastforce

lemma list_ex_setAggregates:
  "list_ex (\<lambda>p. post_id p = pid) (setAggregates pid' agg ps) = list_ex (\<lambda>p. post_id p = pid) ps"
  by (induction ps) (auto simp: setAggregates_def)

lemma setAggregates_member:
  assumes "p \<in> set (setAggregates pid agg ps)" and "post_id p = pid"
  shows "totalRatings p = snd agg \<and> avgRating p = fst agg"
proof -
  let ?f = "\<lambda>x. if post_id x = pid then x\<lparr>avgRating := fst agg, totalRatings := snd agg\<rparr> else x"
  from assms(1) have "p \<in> ?f ` set ps"
    unfolding setAggregates_def set_map .
  then obtain x where p: "p = ?f x" by blast
  show ?thesis
  proof (cases "post_id x = pid")
    case True
    with p have "p = x\<lparr>avgRating := fst agg, totalRatings := snd agg\<rparr>" by simp
    then show ?thesis by simp
  next
    case False
    with p have "p = x" by simp
    with False assms(2) show ?thesis by simp
  qed
qed

lemma addOrUpdateRating_new_author:
  assumes ex: "list_ex (\<lambda>p. post_id p = pid) (postsCollection db)"
      and new: "aid \<notin> fst ` set (starsOf pid db)"
  shows "snd (addOrUpdateRating now pid r aid db) =
           \<lparr>postsCollection = setAggregates pid (expectedAggregates pid (ratingsCollection db))
                                 (postsCollection db),
            ratingsCollection = ratingsCollection db
               @ [\<lparr>rating_id = newDocId (ratingsCollection db), postId = pid, authorId = aid,
                    rating = r, rating_createdAt = now\<rparr>]\<rparr>"
proof -
  have "queryRatings pid aid db = []"
    using new by (force simp: queryRatings_def starsOf_def filter_empty_conv)
  then show ?thesis
    unfolding addOrUpdateRating_found [OF ex] by (simp add: filter_newDocId)
qed

lemma submitRatings_append:
  "submitRatings now pid (xs @ [(aid, r)]) db =
     snd (addOrUpdateRating now pid r aid (submitRatings now pid xs db))"
  by (induction xs arbitrary: db) auto

lemma submitRatings_invariant:
  assumes "list_ex (\<lambda>p. post_id p = pid) (postsCollection db)"
      and "distinct (map fst xs)"
      and "fst ` set xs \<inter> fst ` set (starsOf pid db) = {}"
  shows "list_ex (\<lambda>p. post_id p = pid) (postsCollection (submitRatings now pid xs db))
       \<and> starsOf pid (submitRatings now pid xs db) = starsOf pid db @ xs"
  using assms(2,3)
proof (induction xs rule: rev_induct)
  case Nil
  then show ?case using assms(1) by simp
next
  case (snoc x xs)
  obtain aid r where x: "x = (aid, r)" by (cases x)
  let ?db = "submitRatings now pid xs db"
  from snoc have ih: "list_ex (\<lambda>p. post_id p = pid) (postsCollection ?db)"
      "starsOf pid ?db = starsOf pid db @ xs"
    by auto
  have new: "aid \<notin> fst ` set (starsOf pid ?db)"
    using snoc.prems x unfolding ih(2) by auto
  show ?case
    unfolding x submitRatings_append addOrUpdateRating_new_author [OF ih(1) new]
    using ih by (simp add: starsOf_def list_ex_setAggregates)
qed

lemma starsOf_aggregates:
  "expectedAggregates pid (ratingsCollection db) =
     (if starsOf pid db = [] then (0, 0)
      else (of_int \<lfloor>(of_int (sum_list (map snd (starsOf pid db))) :: rat)
                       / of_nat (length (starsOf pid db)) * 10 + 1 / 2\<rfloor> / 10,
            length (starsOf pid db)))"
  by (simp add: expectedAggregates_def starsOf_def Let_def comp_def)

text \<open>
  In general: when distinct authors rate an existing post that had no ratings, one call after
  the other, the post afterwards carries the count and the rounded mean of all ratings but
  the last one.
\<close>

lemma submitRatings_stale:
  assumes "list_ex (\<lambda>p. post_id p = pid) (postsCollection db)"
      and "distinct (map fst (xs @ [(aid, r)]))"
      and "starsOf pid db = []"
      and "p \<in> set (postsCollection (submitRatings now pid (xs @ [(aid, r)]) db))"
      and "post_id p = pid"
  shows "totalRatings p = length xs
       \<and> avgRating p =
           (if xs = [] then 0
            else of_int \<lfloor>(of_int (sum_list (map snd xs)) :: rat) / of_nat (length xs) * 10 + 1 / 2\<rfloor> / 10)"
proof -
  let ?db = "submitRatings now pid xs db"
  have inv: "list_ex (\<lambda>p. post_id p = pid) (postsCollection ?db)" "starsOf pid ?db = xs"
    using submitRatings_invariant [OF assms(1), of xs now] assms(2,3) by auto
  have new: "aid \<notin> fst ` set (starsOf pid ?db)"
    using assms(2) unfolding inv(2) by auto
  have "p \<in> set (setAggregates pid (expectedAggregates pid (ratingsCollection ?db)) (postsCollection ?db))"
    using assms(4) unfolding submitRatings_append addOrUpdateRating_new_author [OF inv(1) new] by simp
  then have "totalRatings p = snd (expectedAggregates pid (ratingsCollection ?db))
           \<and> avgRating p = fst (expectedAggregates pid (ratingsCollection ?db))"
    using assms(5) by (rule setAggregates_member)
  then show ?thesis
    unfolding starsOf_aggregates inv(2) by simp
qed

end
